theory Spec2Isabelle
  imports Complex_Main "HOL-Library.Sublist"
begin

section \<open>Data model\<close>

text \<open>
  The application (src/index.tsx) is one React component. Its state cells (\<open>useState\<close>) and
  mutable references (\<open>useRef\<close>) are the fields of the record \<open>app\<close>; every handler is a
  function from \<open>app\<close> to \<open>app\<close>. A state update is applied where the handler issues it.
  JavaScript runs one handler or one continuation at a time, so an \<open>async\<close> function is a
  sequence of segments between its \<open>await\<close>s, and other code runs only between segments.

  A handler is a closure of the render that created it. An updater function
  (\<open>setFiles(prev => ...)\<close>) acts on the state of the moment, but a state cell that the
  handler reads directly has the value its render saw, and \<open>initialSteps\<close> is the array its
  render built. The handlers of the input images and the reset take what their render holds
  as an argument (\<open>rendered\<close>, \<open>renderArray\<close>), since claims are decided by it. The
  generation handlers read the state of the moment and store the array as built, which is
  what they see when their render is the latest one and no generation was started from it
  before.

  Clock readings (\<open>performance.now()\<close>) are rationals, in milliseconds. A handler that reads
  the clock takes the reading as its argument \<open>now\<close>.
\<close>

type_synonym timestamp = rat

datatype status = Pending | Loading | Done | Error

text \<open>
  The \<open>time\<close> field of a step is the number \<open>0\<close> in \<open>initialSteps\<close> and afterwards a string
  made by \<open>toFixed(2)\<close>: \<open>TimeFixed2 x\<close> stands for the string \<open>x.toFixed(2)\<close>, with \<open>x\<close> in
  seconds (\<open>TimeFixed2 0\<close> is \<open>'0.00'\<close>).
\<close>

datatype step_time = TimeNumber rat | TimeFixed2 rat

record step =
  name :: string
  status :: status
  time :: step_time

record image =
  label :: string
  url :: string

type_synonym input_file = string

datatype input_method = Upload | Url

text \<open>
  Besides the state cells and references of the component, \<open>app\<close> holds the interval timers
  the browser currently runs: \<open>intervals\<close> lists each active timer as its handle and the step
  index its callback was created for, and \<open>nextHandle\<close> is the handle the next \<open>setInterval\<close>
  returns (handles are positive, so a stored handle is truthy). \<open>crashed\<close> records that a
  state updater threw, which happens when \<open>updateStep\<close> addresses a step that does not exist.
\<close>

record app =
  files :: "input_file list"
  isLoading :: bool
  error :: "string option"
  modelUrl :: "string option"
  steps :: "step list"
  generatedImages :: "image list"
  totalGenerationTime :: "rat option"
  inputMethod :: input_method
  productUrl :: string
  isFetchingUrl :: bool
  urlError :: "string option"
  generationId :: nat
  falCancelUrl :: "string option"
  timerIntervalRef :: "nat option"
  stepStartRef :: "timestamp option"
  generationStartRef :: "timestamp option"
  intervals :: "(nat \<times> nat) list"
  nextHandle :: nat
  crashed :: bool

definition app_init :: app where
  "app_init = \<lparr> files = [], isLoading = False, error = None, modelUrl = None, steps = [],
      generatedImages = [], totalGenerationTime = None, inputMethod = Upload, productUrl = [],
      isFetchingUrl = False, urlError = None, generationId = 0, falCancelUrl = None,
      timerIntervalRef = None, stepStartRef = None, generationStartRef = None,
      intervals = [], nextHandle = 1, crashed = False \<rparr>"

definition initialSteps :: "step list" where
  "initialSteps =
     [\<lparr> name = ''Generate View Images'', status = Pending, time = TimeNumber 0 \<rparr>,
      \<lparr> name = ''Generate 3D Model'', status = Pending, time = TimeNumber 0 \<rparr>]"

text \<open>
  Truthiness, as the conditions \<open>if (stepStartRef.current)\<close>, \<open>if (generationStartRef.current)\<close>
  and \<open>if (falCancelUrl.current)\<close> test it: \<open>null\<close>, the number \<open>0\<close> and the empty string are
  falsy.
\<close>

definition truthy_ts :: "timestamp option \<Rightarrow> bool" where
  "truthy_ts r = (case r of None \<Rightarrow> False | Some t \<Rightarrow> t \<noteq> 0)"

definition truthy_str :: "string option \<Rightarrow> bool" where
  "truthy_str r = (case r of None \<Rightarrow> False | Some u \<Rightarrow> u \<noteq> [])"

text \<open>
  The block that opens \<open>updateStep\<close> and is repeated in \<open>handleCancelGeneration\<close>:
  clear the interval whose handle the reference holds, and forget the handle.
\<close>

definition clearTimer :: "app \<Rightarrow> app" where
  "clearTimer s =
     (case timerIntervalRef s of
        None \<Rightarrow> s
      | Some h \<Rightarrow> s\<lparr> intervals := filter (\<lambda>(h', i). h' \<noteq> h) (intervals s),
                     timerIntervalRef := None \<rparr>)"

text \<open>
  \<open>updateStep\<close> (lines 44-80). The updater copies the array and writes into the addressed step
  object; an index past the end reads \<open>undefined\<close> and the write throws.
\<close>

definition updateStep :: "timestamp \<Rightarrow> nat \<Rightarrow> status \<Rightarrow> app \<Rightarrow> app" where
  "updateStep now index newStatus s =
     (let s1 = clearTimer s in
      if newStatus = Loading then
        (if index < length (steps s1) then
           s1\<lparr> stepStartRef := Some now,
               steps := (steps s1)[index := (steps s1 ! index)\<lparr> status := Loading, time := TimeFixed2 0 \<rparr>],
               timerIntervalRef := Some (nextHandle s1),
               intervals := intervals s1 @ [(nextHandle s1, index)],
               nextHandle := Suc (nextHandle s1) \<rparr>
         else s1\<lparr> stepStartRef := Some now, crashed := True \<rparr>)
      else
        (if index < length (steps s1) then
           (let stepToUpdate = steps s1 ! index;
                finalTime = (if status stepToUpdate = Loading \<and> truthy_ts (stepStartRef s1)
                             then TimeFixed2 ((now - the (stepStartRef s1)) / 1000)
                             else time stepToUpdate)
            in s1\<lparr> steps := (steps s1)[index := stepToUpdate\<lparr> time := finalTime, status := newStatus \<rparr>],
                    stepStartRef := None \<rparr>)
         else s1\<lparr> crashed := True \<rparr>))"

text \<open>
  The callback of the interval created by \<open>updateStep\<close> for step \<open>index\<close> (lines 59-68). It
  runs only while its timer is active.
\<close>

definition tick :: "timestamp \<Rightarrow> nat \<Rightarrow> app \<Rightarrow> app" where
  "tick now h s =
     (case map_of (intervals s) h of
        None \<Rightarrow> s
      | Some index \<Rightarrow>
          (case stepStartRef s of
             None \<Rightarrow> s
           | Some start \<Rightarrow>
               s\<lparr> steps := map (\<lambda>(i, st). if i = index \<and> status st = Loading
                                          then st\<lparr> time := TimeFixed2 ((now - start) / 1000) \<rparr>
                                          else st)
                                (zip [0 ..< length (steps s)] (steps s)) \<rparr>))"


section \<open>Input images\<close>

text \<open>
  \<open>Array.prototype.slice(0, end)\<close>: a negative \<open>end\<close> counts from the end of the array.
\<close>

definition js_slice0 :: "'a list \<Rightarrow> int \<Rightarrow> 'a list" where
  "js_slice0 xs e =
     (let n = int (length xs);
          k = (if e < 0 then max (n + e) 0 else min e n)
      in take (nat k) xs)"

text \<open>
  \<open>handleFileChange\<close> (lines 82-87) computes the room left from \<open>files.length\<close> as its render
  saw it (line 84) and appends to the list of the moment (the updater of line 85).
  \<open>handleDrop\<close> passes the dropped files to it.
\<close>

definition handleFileChange :: "app \<Rightarrow> input_file list option \<Rightarrow> app \<Rightarrow> app" where
  "handleFileChange rendered selectedFiles s =
     (case selectedFiles of
        None \<Rightarrow> s
      | Some sel \<Rightarrow>
          (let newFiles = js_slice0 sel (3 - int (length (files rendered)))
           in s\<lparr> files := files s @ newFiles \<rparr>))"

definition handleDrop :: "app \<Rightarrow> input_file list option \<Rightarrow> app \<Rightarrow> app" where
  "handleDrop rendered dropped s = handleFileChange rendered dropped s"

definition removeFile :: "nat \<Rightarrow> app \<Rightarrow> app" where
  "removeFile index s =
     s\<lparr> files := map snd (filter (\<lambda>(i, f). i \<noteq> index) (zip [0 ..< length (files s)] (files s))) \<rparr>"

text \<open>
  A thrown value or the reason of a rejected promise: an object, reduced to its \<open>message\<close>
  property (\<open>None\<close> when it has none). \<open>message_or e fallback\<close> is \<open>e.message || fallback\<close>.
  Every \<open>throw\<close> of the code and every rejection of \<open>fetch\<close>, of a body reader, of the image
  loader or of the generation client is an \<open>Error\<close> object; \<open>null\<close> and \<open>undefined\<close>, on which
  reading \<open>e.message\<close> would itself throw, are not among the values.
\<close>

datatype thrown = Thrown (message: "string option")

definition message_or :: "thrown \<Rightarrow> string \<Rightarrow> string" where
  "message_or e fallback =
     (case message e of None \<Rightarrow> fallback | Some m \<Rightarrow> if m = [] then fallback else m)"

text \<open>
  \<open>handleUrlFetch\<close> (lines 120-194): the guard, which reads \<open>productUrl\<close>, \<open>isFetchingUrl\<close> and
  \<open>files.length\<close> as its render saw them, and the synchronous part, then the two ways its
  chain of requests ends; the file is added by an updater, on the list of the moment.
  \<open>validUrl\<close> is whether \<open>new URL(productUrl)\<close> succeeds.
\<close>

definition handleUrlFetch :: "app \<Rightarrow> bool \<Rightarrow> app \<Rightarrow> app" where
  "handleUrlFetch rendered validUrl s =
     (if productUrl rendered = [] \<or> isFetchingUrl rendered \<or> length (files rendered) \<ge> 3 then s
      else if \<not> validUrl then s\<lparr> urlError := Some ''Please enter a valid URL.'' \<rparr>
      else s\<lparr> isFetchingUrl := True, urlError := None, error := None \<rparr>)"

text \<open>
  The two tab buttons (lines 630 and 633) and the URL input (line 658). The drop area and the
  file input are rendered on the upload tab only, the URL input and the fetch button on the
  URL tab only (lines 638-668).
\<close>

definition selectInputMethod :: "input_method \<Rightarrow> app \<Rightarrow> app" where
  "selectInputMethod m s = s\<lparr> inputMethod := m \<rparr>"

definition typeProductUrl :: "string \<Rightarrow> app \<Rightarrow> app" where
  "typeProductUrl v s = s\<lparr> productUrl := v \<rparr>"

definition handleUrlFetch_resolved :: "input_file \<Rightarrow> app \<Rightarrow> app" where
  "handleUrlFetch_resolved imageFile s =
     s\<lparr> files := js_slice0 (files s @ [imageFile]) 3,
        productUrl := [],
        inputMethod := Upload,
        isFetchingUrl := False \<rparr>"

definition handleUrlFetch_rejected :: "thrown \<Rightarrow> app \<Rightarrow> app" where
  "handleUrlFetch_rejected e s =
     s\<lparr> urlError := Some (message_or e ''An unexpected error occurred while fetching the image.''),
        isFetchingUrl := False \<rparr>"

section \<open>Reset\<close>

definition resetStateForGeneration :: "app \<Rightarrow> app" where
  "resetStateForGeneration s =
     s\<lparr> isLoading := True, error := None, modelUrl := None, steps := initialSteps,
        generatedImages := [], falCancelUrl := None, totalGenerationTime := None,
        generationStartRef := None \<rparr>"

text \<open>
  The array \<open>initialSteps\<close> is built anew by every render (lines 38-41), and a handler stores
  the array of its own render, by reference (lines 378, 403). The updater of \<open>updateStep\<close>
  copies the stored array but writes \<open>status\<close> and \<open>time\<close> into the step object itself
  (lines 51-57), so what it writes shows in the array of the render that stored the object,
  until a tick or the catch block replaces the object by a copy. \<open>renderSteps a b\<close> is the
  array of a render with the status and time last written into its two objects; its length
  and the names never change. \<open>initialSteps\<close> is the array as built.

  \<open>resetStateForGeneration_of renderArray\<close> is \<open>resetStateForGeneration\<close> run by a handler
  whose render's array holds \<open>renderArray\<close> at that moment, and \<open>reset\<close> (lines 410-416) calls
  it so.
\<close>

definition renderSteps :: "status \<times> step_time \<Rightarrow> status \<times> step_time \<Rightarrow> step list" where
  "renderSteps a b =
     [\<lparr> name = ''Generate View Images'', status = fst a, time = snd a \<rparr>,
      \<lparr> name = ''Generate 3D Model'', status = fst b, time = snd b \<rparr>]"

definition resetStateForGeneration_of :: "step list \<Rightarrow> app \<Rightarrow> app" where
  "resetStateForGeneration_of renderArray s =
     s\<lparr> isLoading := True, error := None, modelUrl := None, steps := renderArray,
        generatedImages := [], falCancelUrl := None, totalGenerationTime := None,
        generationStartRef := None \<rparr>"

definition reset :: "step list \<Rightarrow> app \<Rightarrow> app" where
  "reset renderArray s =
     (resetStateForGeneration_of renderArray (s\<lparr> files := [] \<rparr>))\<lparr> isLoading := False \<rparr>"

section \<open>The generation pipeline as a resumable task\<close>

text \<open>
  \<open>performGeneration\<close> (lines 254-361) is an \<open>async\<close> function. A call of it is a \<open>task\<close>:
  the captured generation id, the \<open>await\<close> it is suspended at (\<open>pc\<close>) and its local variables.
  The environment resumes a task with a \<open>response\<close>, the value the awaited promise settles
  with; the segment up to the next \<open>await\<close> then runs on the application state of that
  moment, and yields the requests it sends.
\<close>

datatype view = FrontView | BackView | LeftSideView

fun viewName :: "view \<Rightarrow> string" where
  "viewName FrontView = ''front view''"
| "viewName BackView = ''back view''"
| "viewName LeftSideView = ''left side view''"

definition toUpperCase_char :: "char \<Rightarrow> char" where
  "toUpperCase_char c =
     (let n = (of_char c :: nat) in if 97 \<le> n \<and> n \<le> 122 then char_of (n - 32) else c)"

definition capitalize :: "string \<Rightarrow> string" where
  "capitalize v = (case v of [] \<Rightarrow> [] | c # cs \<Rightarrow> toUpperCase_char c # cs)"

record inline_data =
  mimeType :: string
  data :: string

definition generatedView :: "view \<Rightarrow> inline_data \<Rightarrow> image" where
  "generatedView v part =
     \<lparr> label = capitalize (viewName v),
       url = ''data:'' @ mimeType part @ '';base64,'' @ data part \<rparr>"

record submit_result =
  cancel_url :: "string option"
  status_url :: "string option"
  response_url :: "string option"

record poll_body =
  poll_status :: "string option"
  poll_logs :: "string option list option"

record result_data =
  result_status :: "string option"
  model_mesh_url :: "string option"
  result_logs :: "string option list option"

fun join_lines :: "string list \<Rightarrow> string" where
  "join_lines [] = []"
| "join_lines [x] = x"
| "join_lines (x # y # ys) = x @ [CHR 0x0A] @ join_lines (y # ys)"

definition log_lines :: "string option list option \<Rightarrow> string" where
  "log_lines logs =
     (case logs of
        None \<Rightarrow> []
      | Some ls \<Rightarrow> join_lines (map (\<lambda>m. case m of None \<Rightarrow> [] | Some x \<Rightarrow> x) ls))"

definition or_else :: "string \<Rightarrow> string \<Rightarrow> string" where
  "or_else x fallback = (if x = [] then fallback else x)"

text \<open>
  \<open>logs?.map(log => log.message).join('\n')\<close>: \<open>logs\<close> may be absent, and a message that is
  \<open>undefined\<close> or \<open>null\<close> joins as the empty string. An absent \<open>logs\<close> gives \<open>undefined\<close>,
  which \<open>||\<close> treats as the empty string does. \<open>or_else x fallback\<close> is \<open>x || fallback\<close>.
  The three response bodies are records of the fields the code reads, \<open>None\<close> for a field
  that is absent or \<open>null\<close>.
\<close>

datatype request =
    GenerateView view
  | SubmitPost string string string
  | PollGet "string option"
  | ResultGet "string option"
  | CancelPut string

text \<open>
  The responses: \<open>Rejected e\<close> settles any awaited promise with a rejection (a network
  failure, a body that does not parse, a property read on \<open>null\<close>). \<open>ViewsGenerated\<close> carries
  the image parts of the three views in the order front, back, left;
  \<open>ViewWithoutImage v\<close> is the case that the first of the three view promises to reject did so
  because the response for view \<open>v\<close> held no image part.
\<close>

datatype response =
    Rejected thrown
  | PartsRead
  | ViewsGenerated inline_data inline_data inline_data
  | ViewWithoutImage view
  | Resized string string string
  | Fetched bool
  | BodyText string
  | SubmitJson submit_result
  | PollJson poll_body
  | ResultJson result_data
  | TimerFired

datatype pc =
    AwaitParts | AwaitViews | AwaitResize | AwaitSubmit | AwaitSubmitText | AwaitSubmitJson
  | AwaitPoll | AwaitPollJson | AwaitResult | AwaitResultJson | AwaitSleep | Finished

record task =
  currentGenerationId :: nat
  pc :: pc
  results :: "image list"
  submitResult :: submit_result

datatype outcome =
    Suspend task app "request list"
  | Return app
  | Throw thrown

text \<open>
  The staleness test \<open>generationId.current !== currentGenerationId\<close>.
\<close>

definition superseded :: "task \<Rightarrow> app \<Rightarrow> bool" where
  "superseded t s \<longleftrightarrow> generationId s \<noteq> currentGenerationId t"

text \<open>
  The head of the polling loop (lines 318-320), and the code after the loop (lines 336-345).
\<close>

definition pollLoop :: "task \<Rightarrow> app \<Rightarrow> outcome" where
  "pollLoop t s =
     (if superseded t s then Return s
      else Suspend (t\<lparr> pc := AwaitPoll \<rparr>) s [PollGet (status_url (submitResult t))])"

definition finishGeneration :: "timestamp \<Rightarrow> result_data \<Rightarrow> task \<Rightarrow> app \<Rightarrow> outcome" where
  "finishGeneration now finalResult t s =
     (if superseded t s then Return s
      else
        (let s1 = updateStep now 1 Done s;
             s2 = s1\<lparr> modelUrl := model_mesh_url finalResult \<rparr>
         in if truthy_ts (generationStartRef s2)
            then Return (s2\<lparr> totalGenerationTime := Some ((now - the (generationStartRef s2)) / 1000),
                             generationStartRef := None \<rparr>)
            else Return s2))"

text \<open>
  One definition per \<open>await\<close>: the segment of the \<open>try\<close> block that runs when that promise
  settles. A response that the awaited promise cannot produce leaves everything as it is.
\<close>

definition afterParts :: "response \<Rightarrow> task \<Rightarrow> app \<Rightarrow> outcome" where
  "afterParts r t s =
     (case r of
        Rejected e \<Rightarrow> Throw e
      | PartsRead \<Rightarrow>
          Suspend (t\<lparr> pc := AwaitViews \<rparr>) s
            [GenerateView FrontView, GenerateView BackView, GenerateView LeftSideView]
      | _ \<Rightarrow> Suspend t s [])"

definition afterViews :: "timestamp \<Rightarrow> response \<Rightarrow> task \<Rightarrow> app \<Rightarrow> outcome" where
  "afterViews now r t s =
     (case r of
        Rejected e \<Rightarrow> Throw e
      | ViewWithoutImage v \<Rightarrow>
          Throw (Thrown (Some (''Gemini failed to generate the '' @ viewName v @ ''.'')))
      | ViewsGenerated front back left \<Rightarrow>
          (if superseded t s then Return s
           else
             (let res = [generatedView FrontView front, generatedView BackView back,
                         generatedView LeftSideView left];
                  s1 = s\<lparr> generatedImages := res \<rparr>;
                  s2 = updateStep now 0 Done s1;
                  s3 = updateStep now 1 Loading s2
              in Suspend (t\<lparr> pc := AwaitResize, results := res \<rparr>) s3 []))
      | _ \<Rightarrow> Suspend t s [])"

definition afterResize :: "response \<Rightarrow> task \<Rightarrow> app \<Rightarrow> outcome" where
  "afterResize r t s =
     (case r of
        Rejected e \<Rightarrow> Throw e
      | Resized frontResized backResized leftResized \<Rightarrow>
          (if superseded t s then Return s
           else Suspend (t\<lparr> pc := AwaitSubmit \<rparr>) s
                  [SubmitPost frontResized backResized leftResized])
      | _ \<Rightarrow> Suspend t s [])"

definition afterSubmit :: "response \<Rightarrow> task \<Rightarrow> app \<Rightarrow> outcome" where
  "afterSubmit r t s =
     (case r of
        Rejected e \<Rightarrow> Throw e
      | Fetched ok \<Rightarrow>
          (if superseded t s then Return s
           else if \<not> ok then Suspend (t\<lparr> pc := AwaitSubmitText \<rparr>) s []
           else Suspend (t\<lparr> pc := AwaitSubmitJson \<rparr>) s [])
      | _ \<Rightarrow> Suspend t s [])"

definition afterSubmitText :: "response \<Rightarrow> task \<Rightarrow> app \<Rightarrow> outcome" where
  "afterSubmitText r t s =
     (case r of
        Rejected e \<Rightarrow> Throw e
      | BodyText body \<Rightarrow> Throw (Thrown (Some (''Fal.ai submission failed: '' @ body)))
      | _ \<Rightarrow> Suspend t s [])"

definition afterSubmitJson :: "response \<Rightarrow> task \<Rightarrow> app \<Rightarrow> outcome" where
  "afterSubmitJson r t s =
     (case r of
        Rejected e \<Rightarrow> Throw e
      | SubmitJson sr \<Rightarrow>
          pollLoop (t\<lparr> submitResult := sr \<rparr>) (s\<lparr> falCancelUrl := cancel_url sr \<rparr>)
      | _ \<Rightarrow> Suspend t s [])"

definition afterPoll :: "response \<Rightarrow> task \<Rightarrow> app \<Rightarrow> outcome" where
  "afterPoll r t s =
     (case r of
        Rejected e \<Rightarrow> Throw e
      | Fetched ok \<Rightarrow> Suspend (t\<lparr> pc := AwaitPollJson \<rparr>) s []
      | _ \<Rightarrow> Suspend t s [])"

definition afterPollJson :: "response \<Rightarrow> task \<Rightarrow> app \<Rightarrow> outcome" where
  "afterPollJson r t s =
     (case r of
        Rejected e \<Rightarrow> Throw e
      | PollJson pollBody \<Rightarrow>
          (if poll_status pollBody = Some ''COMPLETED''
           then Suspend (t\<lparr> pc := AwaitResult \<rparr>) s [ResultGet (response_url (submitResult t))]
           else if poll_status pollBody = Some ''ERROR''
           then Throw (Thrown (Some (or_else (log_lines (poll_logs pollBody)) ''Polling error.'')))
           else Suspend (t\<lparr> pc := AwaitSleep \<rparr>) s [])
      | _ \<Rightarrow> Suspend t s [])"

definition afterResult :: "response \<Rightarrow> task \<Rightarrow> app \<Rightarrow> outcome" where
  "afterResult r t s =
     (case r of
        Rejected e \<Rightarrow> Throw e
      | Fetched ok \<Rightarrow> Suspend (t\<lparr> pc := AwaitResultJson \<rparr>) s []
      | _ \<Rightarrow> Suspend t s [])"

definition afterResultJson :: "timestamp \<Rightarrow> response \<Rightarrow> task \<Rightarrow> app \<Rightarrow> outcome" where
  "afterResultJson now r t s =
     (case r of
        Rejected e \<Rightarrow> Throw e
      | ResultJson resultData \<Rightarrow>
          (if result_status resultData = Some ''ERROR'' \<or> model_mesh_url resultData = None
           then Throw (Thrown (Some (''Generation failed: ''
                         @ or_else (log_lines (result_logs resultData)) ''Unknown error'')))
           else finishGeneration now resultData t s)
      | _ \<Rightarrow> Suspend t s [])"

definition afterSleep :: "response \<Rightarrow> task \<Rightarrow> app \<Rightarrow> outcome" where
  "afterSleep r t s =
     (case r of
        Rejected e \<Rightarrow> Throw e
      | TimerFired \<Rightarrow> pollLoop t s
      | _ \<Rightarrow> Suspend t s [])"

definition tryBlock :: "timestamp \<Rightarrow> response \<Rightarrow> task \<Rightarrow> app \<Rightarrow> outcome" where
  "tryBlock now r t s =
     (case pc t of
        AwaitParts \<Rightarrow> afterParts r t s
      | AwaitViews \<Rightarrow> afterViews now r t s
      | AwaitResize \<Rightarrow> afterResize r t s
      | AwaitSubmit \<Rightarrow> afterSubmit r t s
      | AwaitSubmitText \<Rightarrow> afterSubmitText r t s
      | AwaitSubmitJson \<Rightarrow> afterSubmitJson r t s
      | AwaitPoll \<Rightarrow> afterPoll r t s
      | AwaitPollJson \<Rightarrow> afterPollJson r t s
      | AwaitResult \<Rightarrow> afterResult r t s
      | AwaitResultJson \<Rightarrow> afterResultJson now r t s
      | AwaitSleep \<Rightarrow> afterSleep r t s
      | Finished \<Rightarrow> Suspend t s [])"

text \<open>
  The \<open>catch\<close> and \<open>finally\<close> blocks (lines 347-360), and a whole resumption.
\<close>

definition catchBlock :: "task \<Rightarrow> thrown \<Rightarrow> app \<Rightarrow> app" where
  "catchBlock t e s =
     (if superseded t s then s
      else
        (let s1 = s\<lparr> error := Some (message_or e ''An unknown error occurred.''),
                     steps := map (\<lambda>st. if status st = Loading then st\<lparr> status := Error \<rparr> else st)
                                  (steps s) \<rparr>
         in if truthy_ts (generationStartRef s1) then s1\<lparr> generationStartRef := None \<rparr> else s1))"

definition finallyBlock :: "task \<Rightarrow> app \<Rightarrow> app" where
  "finallyBlock t s =
     (if generationId s = currentGenerationId t
      then s\<lparr> isLoading := False, falCancelUrl := None \<rparr>
      else s)"

definition resume :: "timestamp \<Rightarrow> response \<Rightarrow> task \<Rightarrow> app \<Rightarrow> task \<times> app \<times> request list" where
  "resume now r t s =
     (case tryBlock now r t s of
        Suspend t' s' reqs \<Rightarrow> (t', s', reqs)
      | Return s' \<Rightarrow> (t\<lparr> pc := Finished \<rparr>, finallyBlock t s', [])
      | Throw e \<Rightarrow> (t\<lparr> pc := Finished \<rparr>, finallyBlock t (catchBlock t e s), []))"

definition performGeneration :: "timestamp \<Rightarrow> app \<Rightarrow> task \<times> app" where
  "performGeneration now s =
     (let s1 = s\<lparr> generationId := generationId s + 1 \<rparr>;
          t = \<lparr> currentGenerationId = generationId s1, pc = AwaitParts, results = [],
                submitResult = \<lparr> cancel_url = None, status_url = None, response_url = None \<rparr> \<rparr>
      in (t, updateStep now 0 Loading s1))"

definition startGeneration :: "timestamp \<Rightarrow> app \<Rightarrow> task option \<times> app" where
  "startGeneration now s =
     (if files s = [] \<or> isLoading s then (None, s)
      else (case performGeneration now ((resetStateForGeneration s)\<lparr> generationStartRef := Some now \<rparr>)
            of (t, s') \<Rightarrow> (Some t, s')))"

text \<open>
  \<open>rerunImageGenerationStep\<close> and \<open>handleCancelGeneration\<close> await the cancellation request
  when a cancel URL is held, and run to their end at once when none is. A handler either is
  \<open>Completed\<close>, or is \<open>Awaiting\<close> with the state it leaves and the request it sent; its
  remainder (\<open>rerun_continue\<close>, \<open>cancel_continue\<close>) runs on the state of the moment the
  request settles. The remainder of the cancellation stores the array of the handler's
  render, with what it holds by then.
\<close>

definition rerun_continue :: "timestamp \<Rightarrow> app \<Rightarrow> task \<times> app" where
  "rerun_continue now s =
     performGeneration now
       (s\<lparr> error := None, modelUrl := None, steps := initialSteps, generatedImages := [],
           isLoading := True, totalGenerationTime := None, generationStartRef := Some now \<rparr>)"

datatype 'a handler = Completed 'a | Awaiting app "request list"

definition rerunImageGenerationStep :: "timestamp \<Rightarrow> app \<Rightarrow> (task \<times> app) handler" where
  "rerunImageGenerationStep now s =
     (if truthy_str (falCancelUrl s) then Awaiting s [CancelPut (the (falCancelUrl s))]
      else Completed (rerun_continue now s))"

definition cancel_continue :: "step list \<Rightarrow> app \<Rightarrow> app" where
  "cancel_continue renderArray s = reset renderArray (clearTimer s)"

definition handleCancelGeneration :: "step list \<Rightarrow> app \<Rightarrow> app handler" where
  "handleCancelGeneration renderArray s =
     (let s1 = s\<lparr> generationId := generationId s + 1 \<rparr>
      in if truthy_str (falCancelUrl s1) then Awaiting s1 [CancelPut (the (falCancelUrl s1))]
         else Completed (cancel_continue renderArray s1))"

section \<open>Runs\<close>

text \<open>
  A run of one generation: the completions delivered to its task, interleaved with the ticks
  of interval timers.
\<close>

datatype run_event = Complete timestamp response | Tick timestamp nat

fun exec :: "run_event list \<Rightarrow> task \<times> app \<Rightarrow> task \<times> app" where
  "exec [] c = c"
| "exec (Complete now r # es) (t, s) = (case resume now r t s of (t', s', reqs) \<Rightarrow> exec es (t', s'))"
| "exec (Tick now h # es) (t, s) = exec es (t, tick now h s)"

text \<open>
  The operations that write the list of input images, in runs where every handler belongs
  to the render of the state of the moment.
\<close>

datatype file_event =
    FileChange "input_file list option"
  | Drop "input_file list option"
  | RemoveFile nat
  | UrlFetch bool
  | UrlFetchResolved input_file
  | UrlFetchRejected thrown

fun file_step :: "file_event \<Rightarrow> app \<Rightarrow> app" where
  "file_step (FileChange sel) s = handleFileChange s sel s"
| "file_step (Drop sel) s = handleDrop s sel s"
| "file_step (RemoveFile i) s = removeFile i s"
| "file_step (UrlFetch valid) s = handleUrlFetch s valid s"
| "file_step (UrlFetchResolved f) s = (if isFetchingUrl s then handleUrlFetch_resolved f s else s)"
| "file_step (UrlFetchRejected e) s = (if isFetchingUrl s then handleUrlFetch_rejected e s else s)"

definition file_run :: "file_event list \<Rightarrow> app \<Rightarrow> app" where
  "file_run evs s = foldl (\<lambda>s e. file_step e s) s evs"

text \<open>
  What the consumer observes: steps, generated images, mesh URL, error message, busy flag and
  total time.
\<close>

definition observable ::
  "app \<Rightarrow> step list \<times> image list \<times> string option \<times> string option \<times> bool \<times> rat option" where
  "observable s = (steps s, generatedImages s, modelUrl s, error s, isLoading s, totalGenerationTime s)"

section \<open>Predicates of the statements\<close>

text \<open>
  Several tasks in flight at once: each delivery resumes the task at the given position with
  a response, in any order.
\<close>

fun deliver :: "(nat \<times> timestamp \<times> response) list \<Rightarrow> task list \<times> app \<Rightarrow> task list \<times> app" where
  "deliver [] c = c"
| "deliver ((i, now, r) # ds) (ts, s) =
     (if i < length ts
      then (case resume now r (ts ! i) s of (t', s', rq) \<Rightarrow> deliver ds (ts[i := t'], s'))
      else deliver ds (ts, s))"

definition ticks :: "(timestamp \<times> nat) list \<Rightarrow> run_event list" where
  "ticks tks = map (\<lambda>(now, h). Tick now h) tks"

definition mark_error :: "step \<Rightarrow> step" where
  "mark_error st = (if status st = Loading then st\<lparr> status := Error \<rparr> else st)"

definition poll_loop_pc :: "pc \<Rightarrow> bool" where
  "poll_loop_pc p \<longleftrightarrow> p = AwaitPoll \<or> p = AwaitPollJson \<or> p = AwaitResult \<or> p = AwaitResultJson \<or> p = AwaitSleep"

definition stage1_pc :: "pc \<Rightarrow> bool" where
  "stage1_pc p \<longleftrightarrow> p = AwaitParts \<or> p = AwaitViews"

definition stage2_pc :: "pc \<Rightarrow> bool" where
  "stage2_pc p \<longleftrightarrow> p \<noteq> AwaitParts \<and> p \<noteq> AwaitViews \<and> p \<noteq> Finished"

text \<open>
  A generation begins with an accepted \<open>startGeneration\<close> or with the remainder of
  \<open>rerunImageGenerationStep\<close>. \<open>run_inv\<close> is what holds of its task and the application state
  as long as only its own completions and timer ticks occur.
\<close>

definition generation_started :: "timestamp \<Rightarrow> app \<Rightarrow> task \<times> app \<Rightarrow> bool" where
  "generation_started now s c \<longleftrightarrow>
     startGeneration now s = (Some (fst c), snd c) \<or> rerun_continue now s = c"

definition run_inv :: "task \<times> app \<Rightarrow> bool" where
  "run_inv c \<longleftrightarrow>
     \<not> superseded (fst c) (snd c)
     \<and> (stage1_pc (pc (fst c)) \<longrightarrow> map status (steps (snd c)) = [Loading, Pending])
     \<and> (stage2_pc (pc (fst c)) \<longrightarrow> map status (steps (snd c)) = [Done, Loading])
     \<and> (pc (fst c) \<noteq> Finished \<longrightarrow>
          modelUrl (snd c) = None \<and> totalGenerationTime (snd c) = None \<and> error (snd c) = None
          \<and> isLoading (snd c))"

text \<open>
  The timer discipline of \<open>updateStep\<close>: no timer is active unless the reference holds its
  handle, and then it is the only one.
\<close>

definition timer_inv :: "app \<Rightarrow> bool" where
  "timer_inv s \<longleftrightarrow>
     (case timerIntervalRef s of
        None \<Rightarrow> intervals s = []
      | Some h \<Rightarrow> map fst (intervals s) = [h])"

section \<open>Sample inputs\<close>

text \<open>
  A first input image, the responses of a run, and the states the run passes through.
\<close>

definition example_app :: app where
  "example_app = handleFileChange app_init (Some [''chair.png'']) app_init"

definition example_views :: response where
  "example_views = ViewsGenerated \<lparr> mimeType = ''image/png'', data = ''AAAA'' \<rparr>
     \<lparr> mimeType = ''image/png'', data = ''BBBB'' \<rparr> \<lparr> mimeType = ''image/png'', data = ''CCCC'' \<rparr>"

definition example_submit :: submit_result where
  "example_submit = \<lparr> cancel_url = Some ''https://queue/cancel'',
     status_url = Some ''https://queue/status'', response_url = Some ''https://queue/result'' \<rparr>"

definition example_stale_task :: task where
  "example_stale_task = \<lparr> currentGenerationId = 1, pc = AwaitViews, results = [],
     submitResult = \<lparr> cancel_url = None, status_url = None, response_url = None \<rparr> \<rparr>"

definition example_restarted :: app where
  "example_restarted = snd (rerun_continue 2000 (snd (startGeneration 1000 example_app)))"

definition example_started :: "task \<times> app" where
  "example_started = (the (fst (startGeneration 1000 example_app)), snd (startGeneration 1000 example_app))"

definition example_inflight :: "task \<times> app" where
  "example_inflight = exec [Complete 1001 PartsRead, Tick 1100 1, Complete 3000 example_views] example_started"

definition example_polling :: "task \<times> app" where
  "example_polling =
     exec [Complete 3100 (Resized ''front.webp'' ''back.webp'' ''left.webp''), Tick 3200 2,
           Complete 3500 (Fetched True), Complete 3600 (SubmitJson example_submit),
           Complete 3700 (Fetched True)] example_inflight"

definition example_cancelling :: app where
  "example_cancelling =
     (case handleCancelGeneration initialSteps (snd example_polling) of
        Awaiting s rq \<Rightarrow> s | Completed s \<Rightarrow> s)"

definition example_completed :: response where
  "example_completed = PollJson \<lparr> poll_status = Some ''COMPLETED'', poll_logs = None \<rparr>"

definition example_submitting :: "task \<times> app" where
  "example_submitting =
     exec [Complete 3100 (Resized ''front.webp'' ''back.webp'' ''left.webp''), Tick 3200 2]
       example_inflight"

definition example_run_to_submit :: "run_event list" where
  "example_run_to_submit =
     [Complete 1001 PartsRead, Tick 1100 1, Complete 3000 example_views,
      Complete 3100 (Resized ''front.webp'' ''back.webp'' ''left.webp''), Tick 3200 2]"

definition example_run_to_poll :: "run_event list" where
  "example_run_to_poll =
     [Complete 1001 PartsRead, Tick 1100 1, Complete 3000 example_views,
      Complete 3100 (Resized ''front.webp'' ''back.webp'' ''left.webp''), Tick 3200 2,
      Complete 3500 (Fetched True), Complete 3600 (SubmitJson example_submit),
      Complete 3700 (Fetched True)]"

definition example_error_body :: poll_body where
  "example_error_body =
     \<lparr> poll_status = Some ''ERROR'',
       poll_logs = Some [Some ''mesh extraction failed'', None, Some ''out of memory''] \<rparr>"

definition example_completed_body :: poll_body where
  "example_completed_body = \<lparr> poll_status = Some ''COMPLETED'', poll_logs = None \<rparr>"

definition example_null_mesh :: result_data where
  "example_null_mesh = \<lparr> result_status = None, model_mesh_url = None, result_logs = None \<rparr>"

definition example_failed :: "task \<times> app" where
  "example_failed =
     exec [Complete 3500 (Fetched False), Tick 3550 2, Complete 3600 (BodyText ''server error'')]
       example_submitting"

text \<open>
  Two images are selected; on the URL tab a product URL is typed and the fetch is started;
  the user goes back to the upload tab while the fetch runs; the fetch resolves, and before
  the next render a file is dropped, on the handler of the render that still shows two
  images.
\<close>

definition example_two_files :: app where
  "example_two_files = handleFileChange app_init (Some [''chair.png'', ''side.png'']) app_init"

definition example_url_typed :: app where
  "example_url_typed = typeProductUrl ''https://shop/item'' (selectInputMethod Url example_two_files)"

definition example_fetching :: app where
  "example_fetching =
     selectInputMethod Upload (handleUrlFetch example_url_typed True example_url_typed)"

definition example_fetched :: app where
  "example_fetched = handleUrlFetch_resolved ''product.jpg'' example_fetching"

definition example_stale_drop :: app where
  "example_stale_drop = handleDrop example_fetching (Some [''extra.png'']) example_fetched"

section \<open>Image normalization: the dimensions computed by \<open>resizeImage\<close>\<close>

text \<open>
  \<open>resizeImage\<close> (src/index.tsx, lines 213-252) reads the natural width and height of the
  decoded image and computes the canvas size. Widths and heights are non-negative integers.
  \<open>Math.round(a / b)\<close> rounds to the nearest integer, a tie going up; on non-negative
  integers \<open>a\<close> and a positive \<open>b\<close> that is \<open>(2a + b) div 2b\<close>. (The double division is
  exact enough for image sizes: a quotient that is not a tie is at least \<open>1 / 2b\<close> away from
  one.)
\<close>

definition math_round_div :: "nat \<Rightarrow> nat \<Rightarrow> nat" where
  "math_round_div a b = (2 * a + b) div (2 * b)"

definition resizeImage_dims :: "nat \<Rightarrow> nat \<Rightarrow> nat \<Rightarrow> nat \<times> nat" where
  "resizeImage_dims width height maxSize =
     (if width > height then
        (if width > maxSize
         then (maxSize, math_round_div (height * maxSize) width)
         else (width, height))
      else
        (if height > maxSize
         then (math_round_div (width * maxSize) height, maxSize)
         else (width, height)))"

text \<open>
  The normalization as the specification words it: when the longer side exceeds the maximum,
  the longer side becomes the maximum and the shorter side becomes
  \<open>round (shorter * maximum / longer)\<close>; otherwise nothing changes.
\<close>

definition spec_normalize :: "nat \<Rightarrow> nat \<Rightarrow> nat \<Rightarrow> nat \<times> nat" where
  "spec_normalize w h m =
     (if max w h > m then
        (if w \<ge> h then (m, math_round_div (h * m) w)
         else (math_round_div (w * m) h, m))
      else (w, h))"

section \<open>Frame properties of the step operations\<close>

lemmas segment_defs = afterParts_def afterViews_def afterResize_def afterSubmit_def
  afterSubmitText_def afterSubmitJson_def afterPoll_def afterPollJson_def afterResult_def
  afterResultJson_def afterSleep_def pollLoop_def finishGeneration_def

lemma clearTimer_frame [simp]:
  "files (clearTimer s) = files s"
  "isLoading (clearTimer s) = isLoading s"
  "error (clearTimer s) = error s"
  "modelUrl (clearTimer s) = modelUrl s"
  "steps (clearTimer s) = steps s"
  "generatedImages (clearTimer s) = generatedImages s"
  "totalGenerationTime (clearTimer s) = totalGenerationTime s"
  "generationId (clearTimer s) = generationId s"
  "falCancelUrl (clearTimer s) = falCancelUrl s"
  "stepStartRef (clearTimer s) = stepStartRef s"
  "generationStartRef (clearTimer s) = generationStartRef s"
  "crashed (clearTimer s) = crashed s"
  "nextHandle (clearTimer s) = nextHandle s"
  "timerIntervalRef (clearTimer s) = None"
  by (simp_all add: clearTimer_def split: option.splits)

lemma updateStep_frame [simp]:
  "files (updateStep now i st s) = files s"
  "isLoading (updateStep now i st s) = isLoading s"
  "error (updateStep now i st s) = error s"
  "modelUrl (updateStep now i st s) = modelUrl s"
  "generatedImages (updateStep now i st s) = generatedImages s"
  "totalGenerationTime (updateStep now i st s) = totalGenerationTime s"
  "generationId (updateStep now i st s) = generationId s"
  "falCancelUrl (updateStep now i st s) = falCancelUrl s"
  "generationStartRef (updateStep now i st s) = generationStartRef s"
  by (simp_all add: updateStep_def Let_def)

lemma updateStep_length [simp]: "length (steps (updateStep now i st s)) = length (steps s)"
  by (simp add: updateStep_def Let_def)

lemma updateStep_status:
  "i < length (steps s) \<Longrightarrow>
   map status (steps (updateStep now i st s)) = (map status (steps s))[i := st]"
  by (simp add: updateStep_def Let_def map_update)

lemma updateStep_crashed:
  "i < length (steps s) \<Longrightarrow> crashed (updateStep now i st s) = crashed s"
  by (simp add: updateStep_def Let_def)

lemma tick_frame [simp]:
  "files (tick now h s) = files s"
  "isLoading (tick now h s) = isLoading s"
  "error (tick now h s) = error s"
  "modelUrl (tick now h s) = modelUrl s"
  "generatedImages (tick now h s) = generatedImages s"
  "totalGenerationTime (tick now h s) = totalGenerationTime s"
  "generationId (tick now h s) = generationId s"
  "falCancelUrl (tick now h s) = falCancelUrl s"
  "generationStartRef (tick now h s) = generationStartRef s"
  "stepStartRef (tick now h s) = stepStartRef s"
  "timerIntervalRef (tick now h s) = timerIntervalRef s"
  "intervals (tick now h s) = intervals s"
  "nextHandle (tick now h s) = nextHandle s"
  "crashed (tick now h s) = crashed s"
  by (simp_all add: tick_def split: option.splits)

lemma tick_status [simp]: "map status (steps (tick now h s)) = map status (steps s)"
  by (auto simp: tick_def split: option.splits intro!: nth_equalityI)

lemma tick_length [simp]: "length (steps (tick now h s)) = length (steps s)"
  by (simp add: tick_def split: option.splits)

section \<open>Superseded continuations\<close>

lemma tryBlock_superseded:
  assumes "superseded t s"
  shows "case tryBlock now r t s of
           Suspend t' s' rq \<Rightarrow> s' = s \<and> currentGenerationId t' = currentGenerationId t
         | Return s' \<Rightarrow> s' = s \<or> s' = s\<lparr> falCancelUrl := falCancelUrl s' \<rparr>
         | Throw e \<Rightarrow> True"
  using assms
  by (cases "pc t"; cases r) (simp_all add: tryBlock_def segment_defs superseded_def)

lemma catchBlock_superseded: "superseded t s \<Longrightarrow> catchBlock t e s = s"
  by (simp add: catchBlock_def)

lemma finallyBlock_superseded: "superseded t s \<Longrightarrow> finallyBlock t s = s"
  by (simp add: finallyBlock_def superseded_def)

lemma resume_superseded:
  assumes "superseded t s" and "resume now r t s = (t', s', rq)"
  shows "observable s' = observable s \<and> generationId s' = generationId s
         \<and> currentGenerationId t' = currentGenerationId t
         \<and> files s' = files s \<and> intervals s' = intervals s \<and> timerIntervalRef s' = timerIntervalRef s
         \<and> generationStartRef s' = generationStartRef s \<and> stepStartRef s' = stepStartRef s
         \<and> superseded t' s'"
proof (cases "tryBlock now r t s")
  case (Suspend t1 s1 rq1)
  with tryBlock_superseded[OF assms(1), of now r] assms show ?thesis
    by (auto simp: resume_def superseded_def)
next
  case (Return s1)
  with tryBlock_superseded[OF assms(1), of now r]
  have "s1 = s \<or> s1 = s\<lparr> falCancelUrl := falCancelUrl s1 \<rparr>" by simp
  then have sup: "superseded t s1" and eqs: "observable s1 = observable s" "generationId s1 = generationId s"
     "files s1 = files s" "intervals s1 = intervals s" "timerIntervalRef s1 = timerIntervalRef s"
     "generationStartRef s1 = generationStartRef s" "stepStartRef s1 = stepStartRef s"
    using assms(1)
    by (auto simp: superseded_def observable_def
        dest: arg_cong[where f = generationId] arg_cong[where f = steps] arg_cong[where f = generatedImages]
          arg_cong[where f = modelUrl] arg_cong[where f = error] arg_cong[where f = isLoading]
          arg_cong[where f = totalGenerationTime] arg_cong[where f = files] arg_cong[where f = intervals]
          arg_cong[where f = timerIntervalRef] arg_cong[where f = generationStartRef] arg_cong[where f = stepStartRef])
  from Return assms(2) have "t' = t\<lparr> pc := Finished \<rparr>" "s' = finallyBlock t s1"
    by (simp_all add: resume_def)
  with sup eqs show ?thesis by (simp add: finallyBlock_superseded superseded_def)
next
  case (Throw e)
  with assms show ?thesis
    by (auto simp: resume_def catchBlock_superseded finallyBlock_superseded superseded_def)
qed

lemma deliver_superseded:
  "\<forall>t \<in> set ts. superseded t s \<Longrightarrow>
   observable (snd (deliver ds (ts, s))) = observable s
   \<and> generationId (snd (deliver ds (ts, s))) = generationId s"
proof (induction ds arbitrary: ts s)
  case Nil
  then show ?case by simp
next
  case (Cons d ds)
  obtain i now r where d: "d = (i, now, r)" by (cases d)
  show ?case
  proof (cases "i < length ts")
    case False
    with Cons d show ?thesis by simp
  next
    case True
    obtain t' s' rq where res: "resume now r (ts ! i) s = (t', s', rq)"
      by (cases "resume now r (ts ! i) s")
    from True Cons.prems have "superseded (ts ! i) s" by simp
    from resume_superseded[OF this res]
    have obs: "observable s' = observable s" and gid: "generationId s' = generationId s"
      and sup: "superseded t' s'" by simp_all
    have "\<forall>t \<in> set (ts[i := t']). superseded t s'"
    proof
      fix t assume "t \<in> set (ts[i := t'])"
      then have "t = t' \<or> t \<in> set ts" using set_update_subset_insert[of ts i t'] by auto
      then show "superseded t s'"
        using sup Cons.prems gid by (auto simp: superseded_def)
    qed
    from Cons.IH[OF this] obs gid True res d show ?thesis by simp
  qed
qed

text \<open>
  Claim C1, as the code has it. \<open>startGeneration\<close> is guarded: a call with at least one input
  image and no generation busy increments the generation id by one, hands the new id to its
  task and makes every earlier id stale; a call with no image or while busy changes nothing.
  (\<open>performGeneration\<close> itself, which an accepted call runs, increments the id whenever it is
  called.)
  A continuation whose captured id is not the live id, whatever its suspension point and the
  response it receives, leaves steps, generated images, mesh URL, error message, busy flag and
  total time as they are, and stays superseded; so does any interleaving of deliveries to
  superseded tasks.
\<close>

theorem C1_generation_guard:
  "(files s \<noteq> [] \<and> \<not> isLoading s \<longrightarrow>
      generationId (snd (startGeneration now s)) = generationId s + 1
      \<and> map_option currentGenerationId (fst (startGeneration now s)) = Some (generationId s + 1)
      \<and> (currentGenerationId t \<le> generationId s \<longrightarrow> superseded t (snd (startGeneration now s))))
   \<and> (files s = [] \<or> isLoading s \<longrightarrow> startGeneration now s = (None, s))
   \<and> generationId (snd (performGeneration now s)) = generationId s + 1
   \<and> currentGenerationId (fst (performGeneration now s)) = generationId s + 1
   \<and> (superseded t s \<longrightarrow>
        observable (fst (snd (resume now r t s))) = observable s
        \<and> generationId (fst (snd (resume now r t s))) = generationId s
        \<and> superseded (fst (resume now r t s)) (fst (snd (resume now r t s))))
   \<and> ((\<forall>t \<in> set ts. superseded t s) \<longrightarrow> observable (snd (deliver ds (ts, s))) = observable s)"
proof (intro conjI impI)
  assume a: "files s \<noteq> [] \<and> \<not> isLoading s"
  then show "generationId (snd (startGeneration now s)) = generationId s + 1"
    by (simp add: startGeneration_def performGeneration_def resetStateForGeneration_def Let_def)
  from a show "map_option currentGenerationId (fst (startGeneration now s)) = Some (generationId s + 1)"
    by (simp add: startGeneration_def performGeneration_def resetStateForGeneration_def Let_def)
  assume "currentGenerationId t \<le> generationId s"
  with a show "superseded t (snd (startGeneration now s))"
    by (simp add: startGeneration_def performGeneration_def resetStateForGeneration_def Let_def
        superseded_def)
next
  assume "files s = [] \<or> isLoading s"
  then show "startGeneration now s = (None, s)" by (auto simp: startGeneration_def)
next
  show "generationId (snd (performGeneration now s)) = generationId s + 1"
    by (simp add: performGeneration_def Let_def)
  show "currentGenerationId (fst (performGeneration now s)) = generationId s + 1"
    by (simp add: performGeneration_def Let_def)
next
  assume sup: "superseded t s"
  obtain t' s' rq where res: "resume now r t s = (t', s', rq)" by (cases "resume now r t s")
  from resume_superseded[OF sup res] res
  show "observable (fst (snd (resume now r t s))) = observable s"
    and "generationId (fst (snd (resume now r t s))) = generationId s"
    and "superseded (fst (resume now r t s)) (fst (snd (resume now r t s)))"
    by simp_all
next
  assume "\<forall>t \<in> set ts. superseded t s"
  then show "observable (snd (deliver ds (ts, s))) = observable s"
    using deliver_superseded by blast
qed

text \<open>
  The claim as stated (each call of \<open>start()\<close> increments the generation id) fails: a second call
  while the first generation is busy, and a call with no input image, leave the id as it is.
\<close>

theorem C1_counterexample:
  "generationId (snd (startGeneration 2000 (snd (startGeneration 1000 example_app))))
     \<noteq> generationId (snd (startGeneration 1000 example_app)) + 1
   \<and> generationId (snd (startGeneration 1000 app_init)) \<noteq> generationId app_init + 1"
  by code_simp

theorem C1_witness:
  "files example_app \<noteq> [] \<and> \<not> isLoading example_app
   \<and> generationId (snd (startGeneration 1000 example_app)) = 1
   \<and> isLoading (snd (startGeneration 1000 example_app))
   \<and> startGeneration 2000 (snd (startGeneration 1000 example_app))
       = (None, snd (startGeneration 1000 example_app))
   \<and> superseded example_stale_task example_restarted
   \<and> observable (fst (snd (resume 3000 example_views example_stale_task example_restarted)))
       = observable example_restarted
   \<and> observable (snd (deliver [(0, 3000, example_views), (1, 3000, Rejected (Thrown (Some ''offline'')))]
          ([example_stale_task, example_stale_task], example_restarted)))
       = observable example_restarted"
proof -
  have h1: "files example_app \<noteq> [] \<and> \<not> isLoading example_app" by code_simp
  have h2: "files (snd (startGeneration 1000 example_app)) = []
            \<or> isLoading (snd (startGeneration 1000 example_app))" by code_simp
  have h3: "superseded example_stale_task example_restarted" by code_simp
  have h4: "\<forall>t \<in> set [example_stale_task, example_stale_task]. superseded t example_restarted"
    using h3 by simp
  have g: "generationId example_app = 0" by code_simp
  note a = C1_generation_guard[where s = example_app and now = 1000]
  note b = C1_generation_guard[where s = "snd (startGeneration 1000 example_app)" and now = 2000]
  note c = C1_generation_guard[where s = example_restarted and t = example_stale_task
      and now = 3000 and r = example_views and ts = "[example_stale_task, example_stale_task]"
      and ds = "[(0, 3000, example_views), (1, 3000, Rejected (Thrown (Some ''offline'')))]"]
  from a h1 g have c1: "generationId (snd (startGeneration 1000 example_app)) = 1" by simp
  from b h2 have c2: "startGeneration 2000 (snd (startGeneration 1000 example_app))
       = (None, snd (startGeneration 1000 example_app))" by blast
  from c h3 have c3: "observable (fst (snd (resume 3000 example_views example_stale_task example_restarted)))
       = observable example_restarted" by blast
  from c h4 have c4: "observable (snd (deliver [(0, 3000, example_views), (1, 3000, Rejected (Thrown (Some ''offline'')))]
          ([example_stale_task, example_stale_task], example_restarted)))
       = observable example_restarted" by blast
  have c5: "isLoading (snd (startGeneration 1000 example_app))" by code_simp
  from h1 c1 c2 h3 c3 c4 c5 show ?thesis by blast
qed

section \<open>Cancellation\<close>

lemma reset_fields:
  "files (reset arr s) = []" "steps (reset arr s) = arr" "generatedImages (reset arr s) = []"
  "modelUrl (reset arr s) = None" "error (reset arr s) = None" "isLoading (reset arr s) = False"
  "totalGenerationTime (reset arr s) = None" "falCancelUrl (reset arr s) = None"
  "generationStartRef (reset arr s) = None" "generationId (reset arr s) = generationId s"
  "timerIntervalRef (reset arr s) = timerIntervalRef s" "intervals (reset arr s) = intervals s"
  by (simp_all add: reset_def resetStateForGeneration_of_def)

lemma initialSteps_as_built:
  "initialSteps = renderSteps (Pending, TimeNumber 0) (Pending, TimeNumber 0)"
  by (simp add: initialSteps_def renderSteps_def)

lemma resetStateForGeneration_as_built:
  "resetStateForGeneration s = resetStateForGeneration_of initialSteps s"
  by (simp add: resetStateForGeneration_def resetStateForGeneration_of_def)

text \<open>
  Claim C2, as the code has it. Whatever the state in which the remainder of
  \<open>handleCancelGeneration\<close> runs, when it ends there are no input files, no generated images,
  no mesh URL, no error, the busy flag is false, there is no total time, no cancel handle and
  no start timestamp; the step list is not emptied: it is the array \<open>initialSteps\<close> of the
  handler's render, two steps with the names of the two stages. The handler increments the
  generation id once, at its beginning, and runs to its end at once unless it has to await
  the cancel request; its remainder leaves the id as it finds it.
\<close>

theorem C2_cancel_resets:
  "files (cancel_continue arr s) = [] \<and> steps (cancel_continue arr s) = arr
   \<and> generatedImages (cancel_continue arr s) = [] \<and> modelUrl (cancel_continue arr s) = None
   \<and> error (cancel_continue arr s) = None \<and> isLoading (cancel_continue arr s) = False
   \<and> totalGenerationTime (cancel_continue arr s) = None \<and> falCancelUrl (cancel_continue arr s) = None
   \<and> generationStartRef (cancel_continue arr s) = None \<and> timerIntervalRef (cancel_continue arr s) = None
   \<and> generationId (cancel_continue arr s) = generationId s
   \<and> steps (cancel_continue (renderSteps a b) s) \<noteq> []
   \<and> map name (steps (cancel_continue (renderSteps a b) s))
        = [''Generate View Images'', ''Generate 3D Model'']
   \<and> handleCancelGeneration arr s =
        (if truthy_str (falCancelUrl s)
         then Awaiting (s\<lparr> generationId := generationId s + 1 \<rparr>) [CancelPut (the (falCancelUrl s))]
         else Completed (cancel_continue arr (s\<lparr> generationId := generationId s + 1 \<rparr>)))"
  by (simp add: cancel_continue_def reset_fields handleCancelGeneration_def Let_def renderSteps_def)

text \<open>
  The state after \<open>cancel()\<close> is not the state of initial load: there the step list is empty;
  after a cancellation (here with stage 2 in flight, from the render that followed the
  arrival of the views, whose array is as built) it holds two steps.
\<close>

theorem C2_counterexample:
  "handleCancelGeneration initialSteps (snd example_inflight)
     = Completed (cancel_continue initialSteps ((snd example_inflight)\<lparr> generationId := 2 \<rparr>))
   \<and> steps (cancel_continue initialSteps ((snd example_inflight)\<lparr> generationId := 2 \<rparr>))
        \<noteq> steps app_init
   \<and> steps (cancel_continue initialSteps ((snd example_inflight)\<lparr> generationId := 2 \<rparr>)) \<noteq> []"
  by code_simp

theorem C2_witness:
  "handleCancelGeneration initialSteps (snd example_polling)
     = Awaiting example_cancelling [CancelPut ''https://queue/cancel'']
   \<and> steps (cancel_continue initialSteps example_cancelling) = initialSteps
   \<and> map status (steps (cancel_continue (renderSteps (Loading, TimeFixed2 0) (Pending, TimeNumber 0))
                            example_cancelling)) = [Loading, Pending]
   \<and> generatedImages (cancel_continue initialSteps example_cancelling) = []
   \<and> isLoading (cancel_continue initialSteps example_cancelling) = False"
proof -
  let ?written = "renderSteps (Loading, TimeFixed2 0) (Pending, TimeNumber 0)"
  have a: "truthy_str (falCancelUrl (snd example_polling))" by code_simp
  have b: "the (falCancelUrl (snd example_polling)) = ''https://queue/cancel''" by code_simp
  have c: "example_cancelling = (snd example_polling)\<lparr> generationId := generationId (snd example_polling) + 1 \<rparr>"
    using C2_cancel_resets[of initialSteps "snd example_polling"] a
    by (simp add: example_cancelling_def)
  from C2_cancel_resets[of initialSteps "snd example_polling"] a b c
  have d: "handleCancelGeneration initialSteps (snd example_polling)
     = Awaiting example_cancelling [CancelPut ''https://queue/cancel'']" by simp
  from C2_cancel_resets[of ?written example_cancelling]
  have "steps (cancel_continue ?written example_cancelling) = ?written" by blast
  then have e: "map status (steps (cancel_continue ?written example_cancelling)) = [Loading, Pending]"
    by (simp add: renderSteps_def)
  from d e C2_cancel_resets[of initialSteps example_cancelling] show ?thesis by blast
qed

text \<open>
  Two things the reset does not do. A rerun and a cancellation clicked in the same render
  both await the cancel request; when the remainder of the rerun runs first, it stores the
  array of that render and starts a generation, which writes \<open>loading\<close> into the first step
  object; the remainder of the cancellation then stores the same array, as written, and the
  generation of the rerun is still the current one after the reset.
\<close>

lemma cancel_overtaken_by_rerun:
  "\<not> superseded (fst (rerun_continue 9500 example_cancelling))
       (cancel_continue (renderSteps (Loading, TimeFixed2 0) (Pending, TimeNumber 0))
          (snd (rerun_continue 9500 example_cancelling)))
   \<and> map status (steps (snd (rerun_continue 9500 example_cancelling))) = [Loading, Pending]
   \<and> map status (steps (cancel_continue (renderSteps (Loading, TimeFixed2 0) (Pending, TimeNumber 0))
          (snd (rerun_continue 9500 example_cancelling)))) = [Loading, Pending]"
  by code_simp

section \<open>The polling loop\<close>

lemma resume_poll_loop_superseded:
  assumes "superseded t s" and "poll_loop_pc (pc t)"
  shows "fst (snd (resume now r t s)) = s
         \<and> set (snd (snd (resume now r t s))) \<subseteq> {ResultGet (response_url (submitResult t))}"
  using assms
  by (cases r)
     (auto simp: poll_loop_pc_def resume_def tryBlock_def segment_defs
        catchBlock_superseded finallyBlock_superseded superseded_def catchBlock_def finallyBlock_def
        split: if_splits)

text \<open>
  Claim C3, as the code has it. The captured id is compared with the live id at the head of
  every iteration, before the status request is issued: a superseded continuation that
  reaches the head (after the submission body is read, or after the polling delay) ends
  there and issues nothing, a current one issues the status request. There is no comparison
  between receiving the status response and acting on it: a superseded continuation that
  receives \<open>COMPLETED\<close> still issues the result fetch, and ends silently when the result has
  been read; on \<open>ERROR\<close> it ends silently, on any other status it goes to the delay. At no
  point of the loop does a superseded continuation change the application state or issue a
  status request.
\<close>

theorem C3_poll_loop_staleness:
  "(superseded t s \<and> pc t = AwaitSleep \<longrightarrow>
      resume now TimerFired t s = (t\<lparr> pc := Finished \<rparr>, s, []))
   \<and> (superseded t s \<and> pc t = AwaitSubmitJson \<longrightarrow>
      pc (fst (resume now (SubmitJson sr) t s)) = Finished
      \<and> snd (snd (resume now (SubmitJson sr) t s)) = []
      \<and> observable (fst (snd (resume now (SubmitJson sr) t s))) = observable s)
   \<and> (\<not> superseded t s \<and> pc t = AwaitSleep \<longrightarrow>
      resume now TimerFired t s
        = (t\<lparr> pc := AwaitPoll \<rparr>, s, [PollGet (status_url (submitResult t))]))
   \<and> (superseded t s \<and> pc t = AwaitPollJson \<longrightarrow>
      resume now (PollJson b) t s =
        (if poll_status b = Some ''COMPLETED''
         then (t\<lparr> pc := AwaitResult \<rparr>, s, [ResultGet (response_url (submitResult t))])
         else if poll_status b = Some ''ERROR'' then (t\<lparr> pc := Finished \<rparr>, s, [])
         else (t\<lparr> pc := AwaitSleep \<rparr>, s, [])))
   \<and> (superseded t s \<and> pc t = AwaitResult \<longrightarrow>
      resume now (Fetched ok) t s = (t\<lparr> pc := AwaitResultJson \<rparr>, s, []))
   \<and> (superseded t s \<and> pc t = AwaitResultJson \<longrightarrow>
      resume now (ResultJson d) t s = (t\<lparr> pc := Finished \<rparr>, s, []))
   \<and> (superseded t s \<and> poll_loop_pc (pc t) \<longrightarrow>
      fst (snd (resume now r t s)) = s
      \<and> set (snd (snd (resume now r t s))) \<subseteq> {ResultGet (response_url (submitResult t))})"
proof (intro conjI impI)
  assume "superseded t s \<and> pc t = AwaitSleep"
  then show "resume now TimerFired t s = (t\<lparr> pc := Finished \<rparr>, s, [])"
    by (simp add: resume_def tryBlock_def afterSleep_def pollLoop_def finallyBlock_superseded)
next
  assume a: "superseded t s \<and> pc t = AwaitSubmitJson"
  then have sup: "superseded (t\<lparr> submitResult := sr \<rparr>) (s\<lparr> falCancelUrl := cancel_url sr \<rparr>)"
    by (simp add: superseded_def)
  from a have r: "resume now (SubmitJson sr) t s
      = (t\<lparr> pc := Finished \<rparr>, finallyBlock t (s\<lparr> falCancelUrl := cancel_url sr \<rparr>), [])"
    using sup by (simp add: resume_def tryBlock_def afterSubmitJson_def pollLoop_def)
  show "pc (fst (resume now (SubmitJson sr) t s)) = Finished" by (simp add: r)
  show "snd (snd (resume now (SubmitJson sr) t s)) = []" by (simp add: r)
  show "observable (fst (snd (resume now (SubmitJson sr) t s))) = observable s"
    using a by (simp add: r finallyBlock_def superseded_def observable_def)
next
  assume "\<not> superseded t s \<and> pc t = AwaitSleep"
  then show "resume now TimerFired t s
        = (t\<lparr> pc := AwaitPoll \<rparr>, s, [PollGet (status_url (submitResult t))])"
    by (simp add: resume_def tryBlock_def afterSleep_def pollLoop_def)
next
  assume "superseded t s \<and> pc t = AwaitPollJson"
  then show "resume now (PollJson b) t s =
        (if poll_status b = Some ''COMPLETED''
         then (t\<lparr> pc := AwaitResult \<rparr>, s, [ResultGet (response_url (submitResult t))])
         else if poll_status b = Some ''ERROR'' then (t\<lparr> pc := Finished \<rparr>, s, [])
         else (t\<lparr> pc := AwaitSleep \<rparr>, s, []))"
    by (simp add: resume_def tryBlock_def afterPollJson_def catchBlock_superseded
        finallyBlock_superseded)
next
  assume "superseded t s \<and> pc t = AwaitResult"
  then show "resume now (Fetched ok) t s = (t\<lparr> pc := AwaitResultJson \<rparr>, s, [])"
    by (simp add: resume_def tryBlock_def afterResult_def)
next
  assume "superseded t s \<and> pc t = AwaitResultJson"
  then show "resume now (ResultJson d) t s = (t\<lparr> pc := Finished \<rparr>, s, [])"
    by (simp add: resume_def tryBlock_def afterResultJson_def finishGeneration_def
        catchBlock_superseded finallyBlock_superseded)
next
  assume a: "superseded t s \<and> poll_loop_pc (pc t)"
  then show "fst (snd (resume now r t s)) = s"
    and "set (snd (snd (resume now r t s))) \<subseteq> {ResultGet (response_url (submitResult t))}"
    using resume_poll_loop_superseded[of t s now r] by simp_all
qed

text \<open>
  The claim as stated fails: no comparison precedes the handling of the status response. A
  continuation superseded by \<open>cancel()\<close> while its status request was in flight, and then
  told \<open>COMPLETED\<close>, issues the result fetch and stays alive.
\<close>

theorem C3_counterexample:
  "superseded (fst example_polling) example_cancelling
   \<and> pc (fst example_polling) = AwaitPollJson
   \<and> snd (snd (resume 9000 example_completed (fst example_polling) example_cancelling))
       = [ResultGet (Some ''https://queue/result'')]
   \<and> pc (fst (resume 9000 example_completed (fst example_polling) example_cancelling)) = AwaitResult"
  by code_simp

theorem C3_witness:
  "superseded (fst example_polling) example_cancelling
   \<and> poll_loop_pc (pc (fst example_polling))
   \<and> fst (snd (resume 9000 example_completed (fst example_polling) example_cancelling))
       = example_cancelling
   \<and> resume 9000 TimerFired ((fst example_polling)\<lparr> pc := AwaitSleep \<rparr>) example_cancelling
       = ((fst example_polling)\<lparr> pc := Finished \<rparr>, example_cancelling, [])
   \<and> \<not> superseded (fst example_polling) (snd example_polling)
   \<and> snd (snd (resume 9000 TimerFired ((fst example_polling)\<lparr> pc := AwaitSleep \<rparr>) (snd example_polling)))
       = [PollGet (Some ''https://queue/status'')]"
proof -
  have a: "superseded (fst example_polling) example_cancelling" by code_simp
  have b: "poll_loop_pc (pc (fst example_polling))" by code_simp
  have c: "\<not> superseded (fst example_polling) (snd example_polling)" by code_simp
  have d: "status_url (submitResult (fst example_polling)) = Some ''https://queue/status''"
    by code_simp
  from a have a': "superseded ((fst example_polling)\<lparr> pc := AwaitSleep \<rparr>) example_cancelling"
    by (simp add: superseded_def)
  from c have c': "\<not> superseded ((fst example_polling)\<lparr> pc := AwaitSleep \<rparr>) (snd example_polling)"
    by (simp add: superseded_def)
  from C3_poll_loop_staleness[where t = "fst example_polling" and s = example_cancelling
      and now = 9000 and r = example_completed] a b
  have e: "fst (snd (resume 9000 example_completed (fst example_polling) example_cancelling))
       = example_cancelling" by blast
  from C3_poll_loop_staleness[where t = "(fst example_polling)\<lparr> pc := AwaitSleep \<rparr>"
      and s = example_cancelling and now = 9000] a'
  have f: "resume 9000 TimerFired ((fst example_polling)\<lparr> pc := AwaitSleep \<rparr>) example_cancelling
       = ((fst example_polling)\<lparr> pc := Finished \<rparr>, example_cancelling, [])" by simp
  from C3_poll_loop_staleness[where t = "(fst example_polling)\<lparr> pc := AwaitSleep \<rparr>"
      and s = "snd example_polling" and now = 9000] c' d
  have g: "snd (snd (resume 9000 TimerFired ((fst example_polling)\<lparr> pc := AwaitSleep \<rparr>) (snd example_polling)))
       = [PollGet (Some ''https://queue/status'')]" by simp
  from a b c e f g show ?thesis by blast
qed

section \<open>The error path\<close>

lemma catchBlock_current:
  assumes "\<not> superseded t s"
  shows "error (catchBlock t e s) = Some (message_or e ''An unknown error occurred.'')"
    and "steps (catchBlock t e s) = map mark_error (steps s)"
    and "generationStartRef s \<noteq> Some 0 \<Longrightarrow> generationStartRef (catchBlock t e s) = None"
    and "generatedImages (catchBlock t e s) = generatedImages s"
    and "modelUrl (catchBlock t e s) = modelUrl s"
    and "totalGenerationTime (catchBlock t e s) = totalGenerationTime s"
    and "files (catchBlock t e s) = files s"
    and "generationId (catchBlock t e s) = generationId s"
    and "intervals (catchBlock t e s) = intervals s"
    and "timerIntervalRef (catchBlock t e s) = timerIntervalRef s"
    and "stepStartRef (catchBlock t e s) = stepStartRef s"
    and "crashed (catchBlock t e s) = crashed s"
  using assms
  by (auto simp: catchBlock_def Let_def truthy_ts_def mark_error_def fun_eq_iff
      split: option.splits intro!: map_cong)

lemma finallyBlock_current:
  assumes "generationId s = currentGenerationId t"
  shows "isLoading (finallyBlock t s) = False" and "falCancelUrl (finallyBlock t s) = None"
    and "error (finallyBlock t s) = error s" and "steps (finallyBlock t s) = steps s"
    and "generationStartRef (finallyBlock t s) = generationStartRef s"
    and "generatedImages (finallyBlock t s) = generatedImages s"
    and "modelUrl (finallyBlock t s) = modelUrl s"
    and "totalGenerationTime (finallyBlock t s) = totalGenerationTime s"
    and "files (finallyBlock t s) = files s"
    and "generationId (finallyBlock t s) = generationId s"
    and "intervals (finallyBlock t s) = intervals s"
    and "timerIntervalRef (finallyBlock t s) = timerIntervalRef s"
    and "stepStartRef (finallyBlock t s) = stepStartRef s"
    and "crashed (finallyBlock t s) = crashed s"
  using assms by (simp_all add: finallyBlock_def)

lemma resume_Throw:
  "tryBlock now r t s = Throw e \<Longrightarrow>
   resume now r t s = (t\<lparr> pc := Finished \<rparr>, finallyBlock t (catchBlock t e s), [])"
  by (simp add: resume_def)

lemma tryBlock_Rejected: "pc t \<noteq> Finished \<Longrightarrow> tryBlock now (Rejected e) t s = Throw e"
  by (cases "pc t") (simp_all add: tryBlock_def segment_defs)

lemma or_else_nonempty: "fallback \<noteq> [] \<Longrightarrow> or_else x fallback \<noteq> []"
  by (simp add: or_else_def)

lemma tryBlock_Throw_message:
  assumes "tryBlock now r t s = Throw e" and "\<forall>e'. r \<noteq> Rejected e'"
  shows "\<exists>m. message e = Some m \<and> m \<noteq> []"
  using assms
  by (cases "pc t"; cases r)
     (auto simp: tryBlock_def segment_defs Let_def or_else_nonempty split: if_splits)

text \<open>
  Claim C8. When the \<open>try\<close> block of the current generation throws, at whichever stage, the
  error path stores the message of the error verbatim, marks every step that is loading as
  error, clears the start timestamp (a recorded clock reading other than \<open>0\<close>), clears the busy
  flag, and leaves the generated view images, the mesh URL, the total time and the input
  files as they are. The errors are those with a message: each of the code's own \<open>throw\<close>s
  builds a non-empty one, and so does every rejection that carries an \<open>Error\<close> of the browser
  or of the generation client.
\<close>

theorem C8_error_path:
  assumes "\<not> superseded t s" and "tryBlock now r t s = Throw e"
  shows "((\<forall>e'. r \<noteq> Rejected e') \<longrightarrow> (\<exists>m'. message e = Some m' \<and> m' \<noteq> []))
    \<and> (message e = Some m \<and> m \<noteq> [] \<longrightarrow>
         pc (fst (resume now r t s)) = Finished
         \<and> error (fst (snd (resume now r t s))) = Some m
         \<and> steps (fst (snd (resume now r t s))) = map mark_error (steps s)
         \<and> (generationStartRef s \<noteq> Some 0 \<longrightarrow>
              generationStartRef (fst (snd (resume now r t s))) = None)
         \<and> generatedImages (fst (snd (resume now r t s))) = generatedImages s
         \<and> modelUrl (fst (snd (resume now r t s))) = modelUrl s
         \<and> totalGenerationTime (fst (snd (resume now r t s))) = totalGenerationTime s
         \<and> files (fst (snd (resume now r t s))) = files s
         \<and> isLoading (fst (snd (resume now r t s))) = False)
    \<and> (pc t \<noteq> Finished \<longrightarrow> tryBlock now (Rejected e') t s = Throw e')"
proof (intro conjI impI)
  assume "\<forall>e'. r \<noteq> Rejected e'"
  with assms(2) show "\<exists>m'. message e = Some m' \<and> m' \<noteq> []"
    by (rule tryBlock_Throw_message)
next
  assume "pc t \<noteq> Finished"
  then show "tryBlock now (Rejected e') t s = Throw e'" by (rule tryBlock_Rejected)
next
  assume m: "message e = Some m \<and> m \<noteq> []"
  let ?c = "catchBlock t e s"
  have res: "resume now r t s = (t\<lparr> pc := Finished \<rparr>, finallyBlock t ?c, [])"
    using assms(2) by (rule resume_Throw)
  have cur: "generationId ?c = currentGenerationId t"
    using assms(1) catchBlock_current(8)[OF assms(1)] by (simp add: superseded_def)
  note c = catchBlock_current[OF assms(1), of e]
  note f = finallyBlock_current[OF cur]
  have msg: "message_or e ''An unknown error occurred.'' = m"
    using m by (simp add: message_or_def)
  show "pc (fst (resume now r t s)) = Finished" by (simp add: res)
  show "error (fst (snd (resume now r t s))) = Some m" using c f msg by (simp add: res)
  show "steps (fst (snd (resume now r t s))) = map mark_error (steps s)"
    using c f by (simp add: res)
  show "generatedImages (fst (snd (resume now r t s))) = generatedImages s"
    using c f by (simp add: res)
  show "modelUrl (fst (snd (resume now r t s))) = modelUrl s" using c f by (simp add: res)
  show "totalGenerationTime (fst (snd (resume now r t s))) = totalGenerationTime s"
    using c f by (simp add: res)
  show "files (fst (snd (resume now r t s))) = files s" using c f by (simp add: res)
  show "isLoading (fst (snd (resume now r t s))) = False" using c f by (simp add: res)
  assume "generationStartRef s \<noteq> Some 0"
  then show "generationStartRef (fst (snd (resume now r t s))) = None"
    using c f by (simp add: res)
qed

theorem C8_witness:
  "\<not> superseded (fst example_inflight) (snd example_inflight)
   \<and> pc (fst example_inflight) = AwaitResize
   \<and> tryBlock 4000 (Rejected (Thrown (Some ''Failed to load image for resizing.'')))
        (fst example_inflight) (snd example_inflight)
       = Throw (Thrown (Some ''Failed to load image for resizing.''))
   \<and> generationStartRef (snd example_inflight) \<noteq> Some 0
   \<and> error (fst (snd (resume 4000 (Rejected (Thrown (Some ''Failed to load image for resizing.'')))
                          (fst example_inflight) (snd example_inflight))))
       = Some ''Failed to load image for resizing.''
   \<and> map status (steps (fst (snd (resume 4000 (Rejected (Thrown (Some ''Failed to load image for resizing.'')))
                          (fst example_inflight) (snd example_inflight)))))
       = [Done, Error]
   \<and> generationStartRef (fst (snd (resume 4000 (Rejected (Thrown (Some ''Failed to load image for resizing.'')))
                          (fst example_inflight) (snd example_inflight))))
       = None
   \<and> length (generatedImages (fst (snd (resume 4000 (Rejected (Thrown (Some ''Failed to load image for resizing.'')))
                          (fst example_inflight) (snd example_inflight)))))
       = 3
   \<and> tryBlock 9000 (PollJson example_error_body) (fst example_polling) (snd example_polling)
       = Throw (Thrown (Some (''mesh extraction failed'' @ [CHR 0x0A, CHR 0x0A] @ ''out of memory'')))"
proof -
  let ?m = "''Failed to load image for resizing.''"
  let ?r = "Rejected (Thrown (Some ?m))"
  let ?e2 = "Thrown (Some (''mesh extraction failed'' @ [CHR 0x0A, CHR 0x0A] @ ''out of memory''))"
  have a: "\<not> superseded (fst example_inflight) (snd example_inflight)" by code_simp
  have p: "pc (fst example_inflight) = AwaitResize" by code_simp
  have b: "tryBlock 4000 ?r (fst example_inflight) (snd example_inflight) = Throw (Thrown (Some ?m))"
    by code_simp
  have c: "generationStartRef (snd example_inflight) \<noteq> Some 0" by code_simp
  have d: "map status (map mark_error (steps (snd example_inflight))) = [Done, Error]" by code_simp
  have e: "length (generatedImages (snd example_inflight)) = 3" by code_simp
  have m: "message (Thrown (Some ?m)) = Some ?m \<and> ?m \<noteq> []" by simp
  have a2: "\<not> superseded (fst example_polling) (snd example_polling)" by code_simp
  have b2: "tryBlock 9000 (PollJson example_error_body) (fst example_polling) (snd example_polling)
       = Throw ?e2" by code_simp
  have n2: "\<forall>e'. PollJson example_error_body \<noteq> Rejected e'" by simp
  note w = C8_error_path[OF a b, where m = ?m and e' = "Thrown None"]
  note w2 = C8_error_path[OF a2 b2, where m = "[]" and e' = "Thrown None"]
  from w2 n2 have k: "\<exists>m'. message ?e2 = Some m' \<and> m' \<noteq> []" by blast
  let ?s' = "fst (snd (resume 4000 ?r (fst example_inflight) (snd example_inflight)))"
  from w m have x: "error ?s' = Some ?m" by blast
  from w m have y: "steps ?s' = map mark_error (steps (snd example_inflight))" by blast
  from w m c have z: "generationStartRef ?s' = None" by blast
  from w m have g: "generatedImages ?s' = generatedImages (snd example_inflight)" by blast
  have y': "map status (steps ?s') = [Done, Error]" unfolding y by (rule d)
  have g': "length (generatedImages ?s') = 3" unfolding g by (rule e)
  from a p b c x y' z g' b2 k show ?thesis by blast
qed

section \<open>Runs of one generation\<close>

lemma statuses_length: "map status xs = [a, b] \<Longrightarrow> length xs = 2"
  by (metis length_map length_Cons list.size(3) numeral_2_eq_2)

lemma performGeneration_inv:
  assumes "steps s = initialSteps" "modelUrl s = None" "totalGenerationTime s = None"
    "error s = None" "isLoading s"
  shows "run_inv (performGeneration now s) \<and> pc (fst (performGeneration now s)) = AwaitParts"
proof -
  let ?s1 = "s\<lparr> generationId := generationId s + 1 \<rparr>"
  have "map status (steps (updateStep now 0 Loading ?s1)) = (map status (steps ?s1))[0 := Loading]"
    by (rule updateStep_status) (simp add: assms initialSteps_def)
  then have "map status (steps (updateStep now 0 Loading ?s1)) = [Loading, Pending]"
    by (simp add: assms initialSteps_def)
  then show ?thesis
    using assms by (simp add: performGeneration_def Let_def run_inv_def superseded_def stage1_pc_def stage2_pc_def)
qed

lemma generation_started_inv:
  assumes "generation_started now s c"
  shows "run_inv c \<and> pc (fst c) = AwaitParts"
proof -
  from assms consider
    (start) "startGeneration now s = (Some (fst c), snd c)" | (rerun) "rerun_continue now s = c"
    by (auto simp: generation_started_def)
  then show ?thesis
  proof cases
    case start
    let ?s0 = "(resetStateForGeneration s)\<lparr> generationStartRef := Some now \<rparr>"
    from start have "performGeneration now ?s0 = c"
      by (auto simp: startGeneration_def split: if_splits prod.splits)
    moreover have "run_inv (performGeneration now ?s0) \<and> pc (fst (performGeneration now ?s0)) = AwaitParts"
      by (rule performGeneration_inv) (simp_all add: resetStateForGeneration_def)
    ultimately show ?thesis by simp
  next
    case rerun
    then show ?thesis
      using performGeneration_inv[of "s\<lparr> error := None, modelUrl := None, steps := initialSteps,
           generatedImages := [], isLoading := True, totalGenerationTime := None,
           generationStartRef := Some now \<rparr>" now]
      by (simp add: rerun_continue_def)
  qed
qed

lemma tick_inv: "run_inv (t, s) \<Longrightarrow> run_inv (t, tick now h s)"
  by (simp add: run_inv_def superseded_def)

lemma tryBlock_Return_gid:
  "tryBlock now r t s = Return s' \<Longrightarrow> generationId s' = generationId s"
  by (cases "pc t"; cases r)
     (auto simp: tryBlock_def segment_defs Let_def split: if_splits)

lemma afterViews_inv:
  assumes "run_inv (t, s)" "pc t = AwaitViews" "afterViews now r t s = Suspend t' s' rq"
  shows "run_inv (t', s')"
proof (cases r)
  case (ViewsGenerated vf vb vl)
  from assms(1,2) have st: "map status (steps s) = [Loading, Pending]" and cur: "\<not> superseded t s"
    and rest: "modelUrl s = None" "totalGenerationTime s = None" "error s = None" "isLoading s"
    by (simp_all add: run_inv_def stage1_pc_def)
  then have len: "length (steps s) = 2" by (simp add: statuses_length)
  define res where "res = [generatedView FrontView vf, generatedView BackView vb,
                         generatedView LeftSideView vl]"
  define s2 where "s2 = updateStep now 0 Done (s\<lparr> generatedImages := res \<rparr>)"
  have s2: "map status (steps s2) = [Done, Pending]" "length (steps s2) = 2"
    using st len by (simp_all add: s2_def updateStep_status)
  have s3: "map status (steps (updateStep now 1 Loading s2)) = [Done, Loading]"
    using s2 by (simp add: updateStep_status)
  from assms(3) ViewsGenerated cur
  have "t' = t\<lparr> pc := AwaitResize, results := res \<rparr>" "s' = updateStep now 1 Loading s2"
    by (simp_all add: afterViews_def Let_def res_def s2_def)
  then show ?thesis
    using s3 cur rest by (simp add: run_inv_def superseded_def stage1_pc_def stage2_pc_def s2_def)
qed (use assms in \<open>simp_all add: afterViews_def\<close>)

lemma tryBlock_Suspend_inv:
  assumes "run_inv (t, s)" "tryBlock now r t s = Suspend t' s' rq"
  shows "run_inv (t', s')"
proof (cases "pc t = AwaitViews")
  case True
  with assms show ?thesis by (simp add: tryBlock_def afterViews_inv)
next
  case False
  with assms show ?thesis
    by (cases "pc t"; cases r)
       (auto simp: tryBlock_def segment_defs Let_def run_inv_def superseded_def
          stage1_pc_def stage2_pc_def split: if_splits)
qed

lemma resume_inv:
  assumes "run_inv (t, s)"
  shows "run_inv (fst (resume now r t s), fst (snd (resume now r t s)))"
proof (cases "tryBlock now r t s")
  case (Suspend t' s' rq)
  with tryBlock_Suspend_inv[OF assms this] show ?thesis by (simp add: resume_def)
next
  case (Return s')
  from tryBlock_Return_gid[OF this] assms
  have "generationId s' = currentGenerationId t" by (simp add: run_inv_def superseded_def)
  with Return show ?thesis
    by (simp add: resume_def run_inv_def superseded_def finallyBlock_current
        stage1_pc_def stage2_pc_def)
next
  case (Throw e)
  from assms have cur: "\<not> superseded t s" by (simp add: run_inv_def)
  then have "generationId (catchBlock t e s) = currentGenerationId t"
    by (simp add: catchBlock_current superseded_def)
  with Throw show ?thesis
    by (simp add: resume_def run_inv_def superseded_def finallyBlock_current
        stage1_pc_def stage2_pc_def)
qed

lemma exec_inv: "run_inv c \<Longrightarrow> run_inv (exec evs c)"
proof (induction evs arbitrary: c)
  case Nil
  then show ?case by simp
next
  case (Cons ev evs)
  obtain t s where c: "c = (t, s)" by (cases c)
  show ?case
  proof (cases ev)
    case (Complete now r)
    obtain t' s' rq where res: "resume now r t s = (t', s', rq)" by (cases "resume now r t s")
    with resume_inv[of t s now r] Cons.prems c have "run_inv (t', s')" by simp
    from Cons.IH[OF this] Complete c res show ?thesis by simp
  next
    case (Tick now h)
    from Cons.prems c have "run_inv (t, tick now h s)" by (simp add: tick_inv)
    from Cons.IH[OF this] Tick c show ?thesis by simp
  qed
qed

lemma exec_append: "exec (xs @ ys) c = exec ys (exec xs c)"
proof (induction xs arbitrary: c)
  case Nil
  then show ?case by simp
next
  case (Cons ev xs)
  obtain t s where c: "c = (t, s)" by (cases c)
  show ?case
  proof (cases ev)
    case (Complete now r)
    then show ?thesis using Cons c by (simp split: prod.splits)
  next
    case (Tick now h)
    then show ?thesis using Cons c by simp
  qed
qed

lemma exec_ticks_task: "fst (exec (ticks tks) (t, s)) = t"
  by (induction tks arbitrary: s) (auto simp: ticks_def)

lemma started_run_inv:
  "generation_started now0 s0 c0 \<Longrightarrow> run_inv (exec evs c0)"
  by (simp add: generation_started_inv exec_inv)

section \<open>Failures of the reconstruction job\<close>

lemma statuses_mark_error:
  "map status (map mark_error xs) = map (\<lambda>x. if x = Loading then Error else x) (map status xs)"
  by (simp add: mark_error_def comp_def)

lemma stage2_failure:
  assumes inv: "run_inv (t, s)" and pc: "stage2_pc (pc t)"
    and thr: "tryBlock now r t s = Throw (Thrown (Some m))" and m: "m \<noteq> []"
  shows "fst (resume now r t s) = t\<lparr> pc := Finished \<rparr>
    \<and> snd (snd (resume now r t s)) = []
    \<and> error (fst (snd (resume now r t s))) = Some m
    \<and> map status (steps (fst (snd (resume now r t s)))) = [Done, Error]
    \<and> modelUrl (fst (snd (resume now r t s))) = None
    \<and> totalGenerationTime (fst (snd (resume now r t s))) = None
    \<and> isLoading (fst (snd (resume now r t s))) = False"
proof -
  let ?e = "Thrown (Some m)"
  from inv have cur: "\<not> superseded t s" by (simp add: run_inv_def)
  from inv pc have st: "map status (steps s) = [Done, Loading]"
    and rest: "modelUrl s = None" "totalGenerationTime s = None"
    by (auto simp: run_inv_def stage2_pc_def)
  have res: "resume now r t s = (t\<lparr> pc := Finished \<rparr>, finallyBlock t (catchBlock t ?e s), [])"
    using thr by (rule resume_Throw)
  have gid: "generationId (catchBlock t ?e s) = currentGenerationId t"
    using cur by (simp add: catchBlock_current superseded_def)
  note c = catchBlock_current[OF cur, of ?e]
  note f = finallyBlock_current[OF gid]
  have msg: "message_or ?e ''An unknown error occurred.'' = m"
    using m by (simp add: message_or_def)
  have "map status (steps (catchBlock t ?e s)) = [Done, Error]"
    by (simp only: c statuses_mark_error st) simp
  then show ?thesis
    using c f rest msg by (simp add: res)
qed

lemma exec_single:
  "exec [Complete now r] (t, s) = (fst (resume now r t s), fst (snd (resume now r t s)))"
  by (simp split: prod.splits)

lemma finished_exec:
  "pc t = Finished \<Longrightarrow>
   pc (fst (exec evs (t, s))) = Finished \<and> modelUrl (snd (exec evs (t, s))) = modelUrl s"
proof (induction evs arbitrary: s)
  case Nil
  then show ?case by simp
next
  case (Cons ev evs)
  show ?case
  proof (cases ev)
    case (Complete now r)
    from Cons.prems have "resume now r t s = (t, s, [])"
      by (simp add: resume_def tryBlock_def)
    with Cons Complete show ?thesis by simp
  next
    case (Tick now h)
    with Cons.IH[OF Cons.prems, of "tick now h s"] show ?thesis by simp
  qed
qed

lemma exec_ticks_inv:
  assumes "run_inv (t, s)"
  obtains s1 where "exec (ticks tks) (t, s) = (t, s1)" and "run_inv (t, s1)"
proof -
  have "fst (exec (ticks tks) (t, s)) = t" by (rule exec_ticks_task)
  then have "exec (ticks tks) (t, s) = (t, snd (exec (ticks tks) (t, s)))"
    by (metis prod.collapse)
  moreover from exec_inv[OF assms, of "ticks tks"] calculation
  have "run_inv (t, snd (exec (ticks tks) (t, s)))" by simp
  ultimately show ?thesis using that by blast
qed

lemma sublist_or_else: "sublist x (or_else x fallback)"
  by (simp add: or_else_def)

text \<open>
  Claim C5. In any run of a generation (started by \<open>startGeneration\<close> or by a rerun, with timer
  ticks interleaved at will) that has sent the submission request: when the response is not
  OK and its body has been read, the generation fails with the message
  \<open>Fal.ai submission failed: \<close> followed by the body, the step of stage 2 is marked error, the
  step of stage 1 remains done, the busy flag is cleared and no mesh URL is set.
\<close>

theorem C5_submission_failure:
  assumes "generation_started now0 s0 c0" and "exec evs c0 = (t, s)" and "pc t = AwaitSubmit"
    and "exec (Complete now1 (Fetched False) # ticks tks @ [Complete now2 (BodyText body)]) (t, s)
           = (t', s')"
  shows "error s' = Some (''Fal.ai submission failed: '' @ body)
    \<and> sublist body (the (error s'))
    \<and> map status (steps s') = [Done, Error]
    \<and> pc t' = Finished \<and> isLoading s' = False \<and> modelUrl s' = None"
proof -
  from assms(1,2) have inv: "run_inv (t, s)" using started_run_inv[of now0 s0 c0 evs] by simp
  then have cur: "\<not> superseded t s" by (simp add: run_inv_def)
  let ?t1 = "t\<lparr> pc := AwaitSubmitText \<rparr>"
  have r1: "resume now1 (Fetched False) t s = (?t1, s, [])"
    using cur assms(3) by (simp add: resume_def tryBlock_def afterSubmit_def)
  with resume_inv[OF inv, of now1 "Fetched False"] have inv1: "run_inv (?t1, s)" by simp
  from exec_ticks_inv[OF inv1, of tks] obtain s1
    where tk: "exec (ticks tks) (?t1, s) = (?t1, s1)" and inv2: "run_inv (?t1, s1)" by blast
  let ?m = "''Fal.ai submission failed: '' @ body"
  have thr: "tryBlock now2 (BodyText body) ?t1 s1 = Throw (Thrown (Some ?m))"
    by (simp add: tryBlock_def afterSubmitText_def)
  have "stage2_pc (pc ?t1)" by (simp add: stage2_pc_def)
  from stage2_failure[OF inv2 this thr] have fin:
    "fst (resume now2 (BodyText body) ?t1 s1) = ?t1\<lparr> pc := Finished \<rparr>"
    "error (fst (snd (resume now2 (BodyText body) ?t1 s1))) = Some ?m"
    "map status (steps (fst (snd (resume now2 (BodyText body) ?t1 s1)))) = [Done, Error]"
    "modelUrl (fst (snd (resume now2 (BodyText body) ?t1 s1))) = None"
    "isLoading (fst (snd (resume now2 (BodyText body) ?t1 s1))) = False"
    by simp_all
  have "exec (Complete now1 (Fetched False) # ticks tks @ [Complete now2 (BodyText body)]) (t, s)
        = exec [Complete now2 (BodyText body)] (?t1, s1)"
    by (simp add: r1 exec_append tk)
  also have "\<dots> = (?t1\<lparr> pc := Finished \<rparr>, fst (snd (resume now2 (BodyText body) ?t1 s1)))"
    using fin(1) by (simp only: exec_single)
  finally have eq: "t' = ?t1\<lparr> pc := Finished \<rparr>" "s' = fst (snd (resume now2 (BodyText body) ?t1 s1))"
    using assms(4) by simp_all
  have sl: "sublist body ?m" by (rule suffix_imp_sublist) (simp add: suffix_def)
  show ?thesis
  proof (intro conjI)
    show "error s' = Some ?m" by (simp only: eq fin)
    show "sublist body (the (error s'))" by (simp only: eq fin option.sel sl)
    show "map status (steps s') = [Done, Error]" by (simp only: eq fin)
    show "pc t' = Finished" by (simp add: eq)
    show "isLoading s' = False" by (simp only: eq fin)
    show "modelUrl s' = None" by (simp only: eq fin)
  qed
qed

theorem C5_witness:
  "generation_started 1000 example_app example_started
   \<and> exec example_run_to_submit example_started = example_submitting
   \<and> pc (fst example_submitting) = AwaitSubmit
   \<and> error (snd (exec (Complete 3500 (Fetched False) # ticks [(3550, 2)]
                          @ [Complete 3600 (BodyText ''server error'')]) example_submitting))
       = Some ''Fal.ai submission failed: server error''
   \<and> map status (steps (snd (exec (Complete 3500 (Fetched False) # ticks [(3550, 2)]
                          @ [Complete 3600 (BodyText ''server error'')]) example_submitting)))
       = [Done, Error]"
proof -
  let ?evs = "Complete 3500 (Fetched False) # ticks [(3550, 2)]
                @ [Complete 3600 (BodyText ''server error'')]"
  have a: "generation_started 1000 example_app example_started" by code_simp
  have b: "exec example_run_to_submit example_started = example_submitting" by code_simp
  then have b': "exec example_run_to_submit example_started
                   = (fst example_submitting, snd example_submitting)" by simp
  have c: "pc (fst example_submitting) = AwaitSubmit" by code_simp
  have d: "exec ?evs (fst example_submitting, snd example_submitting)
             = (fst (exec ?evs example_submitting), snd (exec ?evs example_submitting))" by simp
  from C5_submission_failure[OF a b' c d] a b c show ?thesis by simp
qed

text \<open>
  Claim C6. In any run of a generation that is reading a status response: when the response
  reports \<open>ERROR\<close>, the generation ends in the error state, its message being the log messages
  joined by newlines (or \<open>Polling error.\<close> when that text is empty), which contains the joined
  log lines; the step of stage 2 is marked error, the step of stage 1 stays done, and nothing
  further is requested.
\<close>

theorem C6_status_error:
  assumes "generation_started now0 s0 c0" and "exec evs c0 = (t, s)" and "pc t = AwaitPollJson"
    and "poll_status b = Some ''ERROR''"
  shows "resume now (PollJson b) t s
           = (t\<lparr> pc := Finished \<rparr>, fst (snd (resume now (PollJson b) t s)), [])
    \<and> error (fst (snd (resume now (PollJson b) t s)))
         = Some (or_else (log_lines (poll_logs b)) ''Polling error.'')
    \<and> sublist (log_lines (poll_logs b)) (the (error (fst (snd (resume now (PollJson b) t s)))))
    \<and> map status (steps (fst (snd (resume now (PollJson b) t s)))) = [Done, Error]
    \<and> isLoading (fst (snd (resume now (PollJson b) t s))) = False
    \<and> modelUrl (fst (snd (resume now (PollJson b) t s))) = None"
proof -
  from assms(1,2) have inv: "run_inv (t, s)" using started_run_inv[of now0 s0 c0 evs] by simp
  let ?m = "or_else (log_lines (poll_logs b)) ''Polling error.''"
  have ne: "?m \<noteq> []" by (simp add: or_else_def)
  have thr: "tryBlock now (PollJson b) t s = Throw (Thrown (Some ?m))"
    using assms(3,4) by (simp add: tryBlock_def afterPollJson_def)
  have "stage2_pc (pc t)" using assms(3) by (simp add: stage2_pc_def)
  from stage2_failure[OF inv this thr ne] show ?thesis
    by (simp add: sublist_or_else prod_eq_iff)
qed

theorem C6_witness:
  "generation_started 1000 example_app example_started
   \<and> exec example_run_to_poll example_started = example_polling
   \<and> pc (fst example_polling) = AwaitPollJson
   \<and> poll_status example_error_body = Some ''ERROR''
   \<and> log_lines (poll_logs example_error_body)
       = ''mesh extraction failed'' @ [CHR 0x0A, CHR 0x0A] @ ''out of memory''
   \<and> error (fst (snd (resume 9000 (PollJson example_error_body) (fst example_polling) (snd example_polling))))
       = Some (''mesh extraction failed'' @ [CHR 0x0A, CHR 0x0A] @ ''out of memory'')
   \<and> map status (steps (fst (snd (resume 9000 (PollJson example_error_body) (fst example_polling) (snd example_polling)))))
       = [Done, Error]"
proof -
  have a: "generation_started 1000 example_app example_started" by code_simp
  have b: "exec example_run_to_poll example_started = example_polling" by code_simp
  then have b': "exec example_run_to_poll example_started
                   = (fst example_polling, snd example_polling)" by simp
  have c: "pc (fst example_polling) = AwaitPollJson" by code_simp
  have d: "poll_status example_error_body = Some ''ERROR''" by code_simp
  have e: "log_lines (poll_logs example_error_body)
       = ''mesh extraction failed'' @ [CHR 0x0A, CHR 0x0A] @ ''out of memory''" by code_simp
  have f: "or_else (log_lines (poll_logs example_error_body)) ''Polling error.''
       = ''mesh extraction failed'' @ [CHR 0x0A, CHR 0x0A] @ ''out of memory''" by code_simp
  from C6_status_error[OF a b' c d, of 9000] a b c d e f show ?thesis by simp
qed

text \<open>
  Claim C4. In any run of a generation that is reading a status response: when the status is
  \<open>COMPLETED\<close> and the result then fetched reports the status \<open>ERROR\<close> or has no mesh URL, the
  generation ends in the error state with a message that starts with \<open>Generation failed: \<close>;
  the step of stage 2 is marked error, the busy flag is cleared, no total time is recorded,
  and the mesh URL is not set, then or at any later event of the run.
\<close>

theorem C4_completed_without_mesh:
  assumes "generation_started now0 s0 c0" and "exec evs c0 = (t, s)" and "pc t = AwaitPollJson"
    and "poll_status b = Some ''COMPLETED''"
    and "result_status d = Some ''ERROR'' \<or> model_mesh_url d = None"
    and "exec (Complete now1 (PollJson b) # ticks tks1 @ Complete now2 (Fetched ok) # ticks tks2
               @ [Complete now3 (ResultJson d)]) (t, s) = (t', s')"
  shows "modelUrl s' = None
    \<and> error s' = Some (''Generation failed: '' @ or_else (log_lines (result_logs d)) ''Unknown error'')
    \<and> map status (steps s') = [Done, Error]
    \<and> pc t' = Finished \<and> isLoading s' = False \<and> totalGenerationTime s' = None
    \<and> modelUrl (snd (exec later (t', s'))) = None"
proof -
  from assms(1,2) have inv: "run_inv (t, s)" using started_run_inv[of now0 s0 c0 evs] by simp
  let ?t1 = "t\<lparr> pc := AwaitResult \<rparr>"
  let ?t2 = "t\<lparr> pc := AwaitResultJson \<rparr>"
  have r1: "resume now1 (PollJson b) t s = (?t1, s, [ResultGet (response_url (submitResult t))])"
    using assms(3,4) by (simp add: resume_def tryBlock_def afterPollJson_def)
  with resume_inv[OF inv, of now1 "PollJson b"] have inv1: "run_inv (?t1, s)" by simp
  from exec_ticks_inv[OF inv1, of tks1] obtain s1
    where tk1: "exec (ticks tks1) (?t1, s) = (?t1, s1)" and inv2: "run_inv (?t1, s1)" by blast
  have r2: "resume now2 (Fetched ok) ?t1 s1 = (?t2, s1, [])"
    by (simp add: resume_def tryBlock_def afterResult_def)
  with resume_inv[OF inv2, of now2 "Fetched ok"] have inv3: "run_inv (?t2, s1)" by simp
  from exec_ticks_inv[OF inv3, of tks2] obtain s2
    where tk2: "exec (ticks tks2) (?t2, s1) = (?t2, s2)" and inv4: "run_inv (?t2, s2)" by blast
  let ?m = "''Generation failed: '' @ or_else (log_lines (result_logs d)) ''Unknown error''"
  let ?s3 = "fst (snd (resume now3 (ResultJson d) ?t2 s2))"
  have thr: "tryBlock now3 (ResultJson d) ?t2 s2 = Throw (Thrown (Some ?m))"
    using assms(5) by (auto simp: tryBlock_def afterResultJson_def)
  have "stage2_pc (pc ?t2)" by (simp add: stage2_pc_def)
  from stage2_failure[OF inv4 this thr] have fin:
    "fst (resume now3 (ResultJson d) ?t2 s2) = ?t2\<lparr> pc := Finished \<rparr>"
    "error ?s3 = Some ?m" "map status (steps ?s3) = [Done, Error]" "modelUrl ?s3 = None"
    "totalGenerationTime ?s3 = None" "isLoading ?s3 = False"
    by simp_all
  have "exec (Complete now1 (PollJson b) # ticks tks1 @ Complete now2 (Fetched ok) # ticks tks2
               @ [Complete now3 (ResultJson d)]) (t, s)
        = exec (Complete now2 (Fetched ok) # ticks tks2 @ [Complete now3 (ResultJson d)]) (?t1, s1)"
    by (simp add: r1 exec_append tk1)
  also have "\<dots> = exec [Complete now3 (ResultJson d)] (?t2, s2)"
    by (simp add: r2 exec_append tk2)
  also have "\<dots> = (?t2\<lparr> pc := Finished \<rparr>, ?s3)"
    using fin(1) by (simp only: exec_single)
  finally have eq: "t' = ?t2\<lparr> pc := Finished \<rparr>" "s' = ?s3"
    using assms(6) by simp_all
  then have "pc t' = Finished" by simp
  from finished_exec[OF this, of later s'] fin eq show ?thesis by simp
qed

theorem C4_witness:
  "generation_started 1000 example_app example_started
   \<and> exec example_run_to_poll example_started = example_polling
   \<and> pc (fst example_polling) = AwaitPollJson
   \<and> poll_status example_completed_body = Some ''COMPLETED''
   \<and> model_mesh_url example_null_mesh = None
   \<and> modelUrl (snd (exec (Complete 9000 (PollJson example_completed_body) # ticks [(9050, 2)]
        @ Complete 9100 (Fetched True) # ticks []
        @ [Complete 9200 (ResultJson example_null_mesh)]) example_polling)) = None
   \<and> error (snd (exec (Complete 9000 (PollJson example_completed_body) # ticks [(9050, 2)]
        @ Complete 9100 (Fetched True) # ticks []
        @ [Complete 9200 (ResultJson example_null_mesh)]) example_polling))
       = Some ''Generation failed: Unknown error''"
proof -
  let ?evs = "Complete 9000 (PollJson example_completed_body) # ticks [(9050, 2)]
        @ Complete 9100 (Fetched True) # ticks []
        @ [Complete 9200 (ResultJson example_null_mesh)]"
  have a: "generation_started 1000 example_app example_started" by code_simp
  have b: "exec example_run_to_poll example_started = example_polling" by code_simp
  then have b': "exec example_run_to_poll example_started
                   = (fst example_polling, snd example_polling)" by simp
  have c: "pc (fst example_polling) = AwaitPollJson" by code_simp
  have d: "poll_status example_completed_body = Some ''COMPLETED''" by code_simp
  have e: "model_mesh_url example_null_mesh = None" by code_simp
  then have e': "result_status example_null_mesh = Some ''ERROR'' \<or> model_mesh_url example_null_mesh = None"
    by simp
  have f: "or_else (log_lines (result_logs example_null_mesh)) ''Unknown error'' = ''Unknown error''"
    by code_simp
  have g: "exec ?evs (fst example_polling, snd example_polling)
             = (fst (exec ?evs example_polling), snd (exec ?evs example_polling))" by simp
  from C4_completed_without_mesh[OF a b' c d e' g] a b c d e f show ?thesis by simp
qed

section \<open>The list of input images\<close>

lemma js_slice0_take: "0 \<le> e \<Longrightarrow> js_slice0 xs e = take (nat e) xs"
  by (simp add: js_slice0_def Let_def min_def)

lemma js_slice0_length: "0 \<le> e \<Longrightarrow> length (js_slice0 xs e) \<le> nat e"
  by (simp add: js_slice0_take)

lemma handleFileChange_files:
  "length (files s) \<le> 3 \<Longrightarrow>
   files (handleFileChange s (Some sel) s) = files s @ take (3 - length (files s)) sel"
proof -
  assume le: "length (files s) \<le> 3"
  then have "nat (3 - int (length (files s))) = 3 - length (files s)" by simp
  with le show ?thesis by (simp add: handleFileChange_def Let_def js_slice0_take)
qed

lemma handleFileChange_bound:
  "length (files s) \<le> 3 \<Longrightarrow> length (files (handleFileChange s sel s)) \<le> 3"
proof (cases sel)
  case None
  assume "length (files s) \<le> 3"
  with None show ?thesis by (simp add: handleFileChange_def)
next
  case (Some fs)
  assume "length (files s) \<le> 3"
  with Some show ?thesis by (simp add: handleFileChange_files)
qed

lemma removeFile_bound: "length (files (removeFile i s)) \<le> length (files s)"
proof -
  have "length (filter (\<lambda>(j, f). j \<noteq> i) (zip [0 ..< length (files s)] (files s)))
          \<le> length (zip [0 ..< length (files s)] (files s))"
    by (rule length_filter_le)
  then show ?thesis by (simp add: removeFile_def)
qed

lemma handleUrlFetch_files [simp]: "files (handleUrlFetch rendered valid s) = files s"
  by (simp add: handleUrlFetch_def)

lemma handleUrlFetch_refused:
  "length (files rendered) \<ge> 3 \<Longrightarrow> handleUrlFetch rendered valid s = s"
  by (simp add: handleUrlFetch_def)

lemma handleUrlFetch_resolved_files:
  "files (handleUrlFetch_resolved f s) = take 3 (files s @ [f])"
  by (simp add: handleUrlFetch_resolved_def js_slice0_take)

lemma file_step_bound:
  assumes "length (files s) \<le> 3"
  shows "length (files (file_step e s)) \<le> 3"
proof (cases e)
  case (FileChange sel)
  with assms show ?thesis by (simp add: handleFileChange_bound)
next
  case (Drop sel)
  with assms show ?thesis by (simp add: handleDrop_def handleFileChange_bound)
next
  case (RemoveFile i)
  with assms removeFile_bound[of i s] show ?thesis by simp
next
  case (UrlFetch valid)
  with assms show ?thesis by simp
next
  case (UrlFetchResolved f)
  with assms show ?thesis by (auto simp: handleUrlFetch_resolved_files)
next
  case (UrlFetchRejected x)
  with assms show ?thesis by (simp add: handleUrlFetch_rejected_def)
qed

text \<open>
  As long as every handler belongs to the render of the state of the moment, the list keeps
  to at most three entries.
\<close>

lemma file_run_bound: "length (files s) \<le> 3 \<Longrightarrow> length (files (file_run evs s)) \<le> 3"
  unfolding file_run_def
  by (induction evs arbitrary: s) (simp_all add: file_step_bound)

text \<open>
  Claim C10 at a handler of an earlier render. Two images are selected and a URL fetch is
  started; with the upload tab shown again, the fetch resolves and its updater appends the
  third image. A file dropped before the next render is handled by the closure that still
  sees two images: it takes one file as the room left and appends it to the list of the
  moment, which then holds four.
\<close>

theorem C10_stale_drop_exceeds_cap:
  "files example_fetching = [''chair.png'', ''side.png'']
   \<and> isFetchingUrl example_fetching \<and> inputMethod example_fetching = Upload
   \<and> files example_fetched = [''chair.png'', ''side.png'', ''product.jpg'']
   \<and> files example_stale_drop = [''chair.png'', ''side.png'', ''product.jpg'', ''extra.png'']
   \<and> length (files example_stale_drop) = 4
   \<and> \<not> length (files example_stale_drop) \<le> 3"
  by code_simp

section \<open>Step timers\<close>

lemma clearTimer_timer_inv: "timer_inv s \<Longrightarrow> intervals (clearTimer s) = []"
  by (cases "intervals s") (auto simp: timer_inv_def clearTimer_def split: option.splits)

lemma updateStep_timer_inv: "timer_inv s \<Longrightarrow> timer_inv (updateStep now i st s)"
  by (simp add: updateStep_def Let_def timer_inv_def clearTimer_timer_inv)

lemma updateStep_stops_timer:
  "timer_inv s \<Longrightarrow> st \<noteq> Loading \<Longrightarrow> intervals (updateStep now i st s) = []"
  by (simp add: updateStep_def Let_def clearTimer_timer_inv)

lemma updateStep_freezes_time:
  assumes "i < length (steps s)" "status (steps s ! i) = Loading" "stepStartRef s = Some start"
    "start \<noteq> 0" "st \<noteq> Loading"
  shows "steps (updateStep now i st s) ! i
           = (steps s ! i)\<lparr> time := TimeFixed2 ((now - start) / 1000), status := st \<rparr>"
  using assms by (simp add: updateStep_def Let_def truthy_ts_def)

lemma tick_not_loading:
  assumes "i < length (steps s)" "status (steps s ! i) \<noteq> Loading"
  shows "steps (tick now h s) ! i = steps s ! i"
  using assms by (simp add: tick_def split: option.splits)

lemma timer_inv_frame:
  "intervals s' = intervals s \<Longrightarrow> timerIntervalRef s' = timerIntervalRef s \<Longrightarrow>
   timer_inv s' = timer_inv s"
  by (simp add: timer_inv_def split: option.splits)

lemma timer_inv_updates [simp]:
  "timer_inv (s\<lparr> falCancelUrl := a \<rparr>) = timer_inv s"
  "timer_inv (s\<lparr> generatedImages := b \<rparr>) = timer_inv s"
  "timer_inv (s\<lparr> modelUrl := c \<rparr>) = timer_inv s"
  "timer_inv (s\<lparr> totalGenerationTime := d \<rparr>) = timer_inv s"
  "timer_inv (s\<lparr> generationStartRef := e \<rparr>) = timer_inv s"
  "timer_inv (s\<lparr> generationId := f \<rparr>) = timer_inv s"
  "timer_inv (s\<lparr> error := g \<rparr>) = timer_inv s"
  "timer_inv (s\<lparr> steps := h \<rparr>) = timer_inv s"
  "timer_inv (s\<lparr> isLoading := i \<rparr>) = timer_inv s"
  by (rule timer_inv_frame; simp)+

lemma tick_timer_inv: "timer_inv s \<Longrightarrow> timer_inv (tick now h s)"
  by (simp add: timer_inv_frame[of "tick now h s" s])

lemma timer_inv_one:
  assumes "timer_inv s"
  shows "length (intervals s) \<le> 1"
proof (cases "timerIntervalRef s")
  case None
  with assms show ?thesis by (simp add: timer_inv_def)
next
  case (Some h)
  with assms have "map fst (intervals s) = [h]" by (simp add: timer_inv_def)
  then have "length (map fst (intervals s)) = 1" by simp
  then show ?thesis by simp
qed

lemma tryBlock_timer_inv:
  assumes "timer_inv s"
  shows "case tryBlock now r t s of
           Suspend t' s' rq \<Rightarrow> timer_inv s'
         | Return s' \<Rightarrow> timer_inv s'
         | Throw e \<Rightarrow> True"
  using assms
  by (cases "pc t"; cases r)
     (auto simp: tryBlock_def segment_defs Let_def updateStep_timer_inv)

lemma catchBlock_timer_inv: "timer_inv (catchBlock t e s) = timer_inv s"
  by (simp add: catchBlock_def Let_def)

lemma finallyBlock_timer_inv: "timer_inv (finallyBlock t s) = timer_inv s"
  by (simp add: finallyBlock_def)

lemma resume_timer_inv:
  assumes "timer_inv s"
  shows "timer_inv (fst (snd (resume now r t s)))"
  using tryBlock_timer_inv[OF assms, of now r t] assms
  by (cases "tryBlock now r t s")
     (simp_all add: resume_def catchBlock_timer_inv finallyBlock_timer_inv)

lemma exec_Complete:
  "exec (Complete now r # es) (t, s)
     = exec es (fst (resume now r t s), fst (snd (resume now r t s)))"
  by (simp split: prod.splits)

lemma exec_timer_inv: "timer_inv (snd c) \<Longrightarrow> timer_inv (snd (exec evs c))"
proof (induction evs arbitrary: c)
  case Nil
  then show ?case by simp
next
  case (Cons ev evs)
  obtain t s where c: "c = (t, s)" by (cases c)
  show ?case
  proof (cases ev)
    case (Complete now r)
    from Cons.prems c have "timer_inv (fst (snd (resume now r t s)))"
      by (simp add: resume_timer_inv)
    then have "timer_inv (snd (exec evs (fst (resume now r t s), fst (snd (resume now r t s)))))"
      by (intro Cons.IH) simp
    then show ?thesis by (simp only: Complete c exec_Complete)
  next
    case (Tick now h)
    from Cons.prems c have "timer_inv (tick now h s)" by (simp add: tick_timer_inv)
    then have "timer_inv (snd (exec evs (t, tick now h s)))" by (intro Cons.IH) simp
    then show ?thesis by (simp add: Tick c)
  qed
qed

lemma generation_started_timer_inv:
  assumes "timer_inv s" "generation_started now s c"
  shows "timer_inv (snd c)"
proof -
  have p: "\<And>s. timer_inv s \<Longrightarrow> timer_inv (snd (performGeneration now s))"
    by (simp add: performGeneration_def Let_def updateStep_timer_inv)
  have "timer_inv ((resetStateForGeneration s)\<lparr> generationStartRef := Some now \<rparr>)"
    using assms(1) by (simp add: resetStateForGeneration_def)
  moreover have "timer_inv (s\<lparr> error := None, modelUrl := None, steps := initialSteps,
           generatedImages := [], isLoading := True, totalGenerationTime := None,
           generationStartRef := Some now \<rparr>)"
    using assms(1) by simp
  ultimately show ?thesis
    using assms(2) p
    by (auto simp: generation_started_def startGeneration_def rerun_continue_def
        split: if_splits prod.splits)
qed

text \<open>
  Claim C9 on the failure path. The run: a generation is started, the views arrive, stage 2
  starts its timer (handle 2, started at 3000), the submission is answered with a failure at
  3500, a tick at 3550 writes 0.55 s, and the body is read at 3600. The catch block marks the
  step as error, yet the timer of the step is still active and its handle still stored, and
  the time of the step is that of the last tick, not the 0.60 s elapsed at the transition.
\<close>

theorem C9_failure_leaves_timer_running:
  "map status (steps (snd example_failed)) = [Done, Error]
   \<and> intervals (snd example_failed) = [(2, 1)]
   \<and> timerIntervalRef (snd example_failed) = Some 2
   \<and> stepStartRef (snd example_failed) = Some 3000
   \<and> time (steps (snd example_failed) ! 1) = TimeFixed2 (11 / 20)
   \<and> time (steps (snd example_failed) ! 1) \<noteq> TimeFixed2 ((3600 - 3000) / 1000)
   \<and> intervals (tick 3700 2 (snd example_failed)) = [(2, 1)]"
  by code_simp

section \<open>Properties of the image normalization\<close>

lemma math_round_div_self:
  assumes b: "0 < b" shows "math_round_div (b * m) b = m"
proof -
  have e: "2 * (b * m) + b = b + m * (2 * b)" by (simp add: algebra_simps)
  have "math_round_div (b * m) b = (b + m * (2 * b)) div (2 * b)"
    unfolding math_round_div_def by (simp only: e)
  also have "\<dots> = m + b div (2 * b)"
    using b by (subst div_mult_self1) simp_all
  also have "\<dots> = m" using b by simp
  finally show ?thesis .
qed

lemma math_round_div_le: "2 * math_round_div a b * b \<le> 2 * a + b"
proof -
  have "(2 * a + b) div (2 * b) * (2 * b) \<le> 2 * a + b" by (rule div_times_less_eq_dividend)
  then show ?thesis by (simp add: math_round_div_def mult_ac)
qed

lemma math_round_div_gt: "0 < b \<Longrightarrow> 2 * a < (2 * math_round_div a b + 1) * b"
proof -
  assume b: "0 < b"
  then have "2 * a + b < (2 * b) * ((2 * a + b) div (2 * b)) + 2 * b"
    using dividend_less_times_div[of "2*b" "2*a+b"] by (simp add: mult_ac)
  then show ?thesis by (simp add: math_round_div_def algebra_simps)
qed

lemma math_round_div_le_max: "a \<le> b \<Longrightarrow> 0 < b \<Longrightarrow> math_round_div (a * m) b \<le> m"
proof -
  assume ab: "a \<le> b" and b: "0 < b"
  have "2 * (a * m) + b \<le> 2 * (b * m) + b" using ab by simp
  then have "math_round_div (a * m) b \<le> math_round_div (b * m) b"
    unfolding math_round_div_def by (rule div_le_mono)
  then show ?thesis using b by (simp add: math_round_div_self)
qed

text \<open>
  Claim C7. For every input of width \<open>w\<close> and height \<open>h\<close> and maximum dimension 1024 the
  dimensions computed by the code are those of the specification: a longer side above 1024
  becomes 1024 and the shorter side becomes \<open>round (shorter * 1024 / longer)\<close>, an image
  within bounds keeps its dimensions; the scaled side differs from the exact
  aspect-preserving value by at most one half; and 2000 by 1000 yields 1024 by 512.
\<close>

theorem C7_resizeImage_dims:
  "resizeImage_dims w h 1024 = spec_normalize w h 1024
   \<and> (max w h \<le> 1024 \<longrightarrow> resizeImage_dims w h 1024 = (w, h))
   \<and> (max w h > 1024 \<longrightarrow> max (fst (resizeImage_dims w h 1024)) (snd (resizeImage_dims w h 1024)) = 1024)
   \<and> (w > 1024 \<and> w \<ge> h \<longrightarrow>
        resizeImage_dims w h 1024 = (1024, math_round_div (h * 1024) w)
        \<and> 2 * (h * 1024) < (2 * math_round_div (h * 1024) w + 1) * w
        \<and> 2 * math_round_div (h * 1024) w * w \<le> 2 * (h * 1024) + w)
   \<and> (h > 1024 \<and> h \<ge> w \<longrightarrow>
        resizeImage_dims w h 1024 = (math_round_div (w * 1024) h, 1024)
        \<and> 2 * (w * 1024) < (2 * math_round_div (w * 1024) h + 1) * h
        \<and> 2 * math_round_div (w * 1024) h * h \<le> 2 * (w * 1024) + h)
   \<and> resizeImage_dims 2000 1000 1024 = (1024, 512)"
proof (intro conjI impI)
  show "resizeImage_dims w h 1024 = spec_normalize w h 1024"
    by (cases "w = h") (auto simp: resizeImage_dims_def spec_normalize_def math_round_div_self)
next
  assume "max w h \<le> 1024" then show "resizeImage_dims w h 1024 = (w, h)"
    by (auto simp: resizeImage_dims_def)
next
  assume "1024 < max w h"
  then show "max (fst (resizeImage_dims w h 1024)) (snd (resizeImage_dims w h 1024)) = 1024"
    using math_round_div_le_max[of h w 1024] math_round_div_le_max[of w h 1024]
    by (auto simp: resizeImage_dims_def max_def)
next
  assume a: "1024 < w \<and> h \<le> w"
  then show "resizeImage_dims w h 1024 = (1024, math_round_div (h * 1024) w)"
    by (cases "w = h") (auto simp: resizeImage_dims_def math_round_div_self)
  show "2 * (h * 1024) < (2 * math_round_div (h * 1024) w + 1) * w"
    using a by (intro math_round_div_gt) simp
  show "2 * math_round_div (h * 1024) w * w \<le> 2 * (h * 1024) + w"
    by (rule math_round_div_le)
next
  assume a: "1024 < h \<and> w \<le> h"
  then show "resizeImage_dims w h 1024 = (math_round_div (w * 1024) h, 1024)"
    by (cases "w = h") (auto simp: resizeImage_dims_def math_round_div_self)
  show "2 * (w * 1024) < (2 * math_round_div (w * 1024) h + 1) * h"
    using a by (intro math_round_div_gt) simp
  show "2 * math_round_div (w * 1024) h * h \<le> 2 * (w * 1024) + h"
    by (rule math_round_div_le)
next
  show "resizeImage_dims 2000 1000 1024 = (1024, 512)"
    by (simp add: resizeImage_dims_def math_round_div_def)
qed

theorem C7_witness:
  "resizeImage_dims 3000 1999 1024 = (1024, 682) \<and> resizeImage_dims 800 600 1024 = (800, 600)
   \<and> resizeImage_dims 1500 1500 1024 = (1024, 1024)"
  using C7_resizeImage_dims[of 3000 1999] C7_resizeImage_dims[of 800 600] C7_resizeImage_dims[of 1500 1500]
  by (simp add: math_round_div_def spec_normalize_def)

end
